theory Spec2Isabelle
  imports Main "HOL-Library.Char_ord" "HOL-Library.List_Lexorder"
begin

section \<open>TwinCAT library references\<close>

text \<open>
  A shallow embedding of \<^verbatim>\<open>tcclitools/tclibrary/tclibraryreference.py\<close> and
  \<^verbatim>\<open>tcclitools/tclibrary/tclibrary.py\<close>. Exceptions are values of the type \<open>exn\<close>, and a
  function that may raise returns \<open>exn + 'a\<close>.

  A Python string is a \<open>string\<close> whose characters are code points: the character of
  number \<open>n\<close> is the code point \<open>U+n\<close>, so the model has the strings over the first 256
  code points (Latin-1) and no others.
\<close>

subsection \<open>Exceptions\<close>

text \<open>
  \<open>AttributeError\<close>, \<open>InvalidVersion\<close> and \<open>XmlError\<close> (whatever reading an XML file raises)
  only arise inside \<^verbatim>\<open>try\<close> blocks of the source and are caught there.
  \<open>TcLibraryException\<close> and \<open>FileNotFoundError\<close> carry their message.
\<close>

datatype exn =
    AttributeError
  | InvalidVersion
  | TypeError
  | TcLibraryException string
  | FileNotFoundError string
  | DuplicatePathError
  | XmlError

subsection \<open>Versions of the \<^verbatim>\<open>packaging\<close> library\<close>

text \<open>
  \<^verbatim>\<open>packaging.version.Version\<close> is a class of an external library. Where the source
  only passes versions on (parsing a reference, constructing a library), the type of
  versions is a type variable and the library's parser a parameter. Where it compares or
  prints them, versions are modelled on their release segment, the dotted sequence of
  numbers (\<^verbatim>\<open>3.3.3.0\<close> is \<open>Version [3, 3, 3, 0]\<close>); a version object always has a release of
  at least one number.
\<close>

datatype Version = Version (release: "nat list")

definition valid_version :: "Version \<Rightarrow> bool" where
  "valid_version v = (release v \<noteq> [])"

text \<open>
  Versions are compared through a key in which the trailing zeros of the release are
  dropped (\<^verbatim>\<open>_cmpkey\<close>), so that \<^verbatim>\<open>1.0 == 1.0.0\<close>; keys are tuples of integers, which
  Python compares lexicographically.
\<close>

definition cmpkey :: "Version \<Rightarrow> nat list" where
  "cmpkey v = rev (dropWhile (\<lambda>x. x = 0) (rev (release v)))"

subsection \<open>The version attribute: a string or a \<open>Version\<close>\<close>

text \<open>The attribute \<^verbatim>\<open>version: str | version_module.Version\<close>, for versions of type \<open>'v\<close>.\<close>

datatype 'v ver = VStr string | VVer 'v

text \<open>
  \<^verbatim>\<open>x == y\<close> on version attributes. Two strings are equal when they are the same string,
  two versions when their keys are; a string and a version are never equal (both
  \<^verbatim>\<open>__eq__\<close> methods return \<^verbatim>\<open>NotImplemented\<close> and Python falls back to identity).
\<close>

fun py_eq :: "Version ver \<Rightarrow> Version ver \<Rightarrow> bool" where
  "py_eq (VStr a) (VStr b) = (a = b)"
| "py_eq (VVer a) (VVer b) = (cmpkey a = cmpkey b)"
| "py_eq (VStr a) (VVer b) = False"
| "py_eq (VVer a) (VStr b) = False"

text \<open>
  \<^verbatim>\<open>x < y\<close> and \<^verbatim>\<open>x > y\<close>. Strings are ordered lexicographically by code point, versions
  by their keys; between a string and a version Python raises \<^verbatim>\<open>TypeError\<close>.
\<close>

fun py_lt :: "Version ver \<Rightarrow> Version ver \<Rightarrow> exn + bool" where
  "py_lt (VStr a) (VStr b) = Inr (a < b)"
| "py_lt (VVer a) (VVer b) = Inr (cmpkey a < cmpkey b)"
| "py_lt (VStr a) (VVer b) = Inl TypeError"
| "py_lt (VVer a) (VStr b) = Inl TypeError"

fun py_gt :: "Version ver \<Rightarrow> Version ver \<Rightarrow> exn + bool" where
  "py_gt (VStr a) (VStr b) = Inr (b < a)"
| "py_gt (VVer a) (VVer b) = Inr (cmpkey b < cmpkey a)"
| "py_gt (VStr a) (VVer b) = Inl TypeError"
| "py_gt (VVer a) (VStr b) = Inl TypeError"

subsection \<open>\<^verbatim>\<open>str.lower\<close>\<close>

text \<open>
  On strings over the first 256 code points \<^verbatim>\<open>str.lower\<close> works character by character:
  the capitals \<^verbatim>\<open>A\<close> to \<^verbatim>\<open>Z\<close> (65 to 90) and the capitals of Latin-1 (192 to 222, without
  the multiplication sign 215) move up by 32 to their small letters, and every other
  character stays.
\<close>

definition is_upper :: "char \<Rightarrow> bool" where
  "is_upper c =
     ((65 \<le> (of_char c :: nat) \<and> (of_char c :: nat) \<le> 90)
      \<or> (192 \<le> (of_char c :: nat) \<and> (of_char c :: nat) \<le> 222 \<and> (of_char c :: nat) \<noteq> 215))"

definition lower_char :: "char \<Rightarrow> char" where
  "lower_char c = (if is_upper c then char_of (of_char c + (32::nat)) else c)"

definition lower :: "string \<Rightarrow> string" where
  "lower s = map lower_char s"

subsection \<open>The class \<^verbatim>\<open>TcLibraryReference\<close>\<close>

record 'v TcLibraryReference =
  title :: string
  version :: "'v ver"
  company :: string

text \<open>
  The data model of the specification: the version of a reference is a structured version
  or the wildcard \<^verbatim>\<open>"*"\<close>.
\<close>

definition valid_ref :: "Version TcLibraryReference \<Rightarrow> bool" where
  "valid_ref r = (case version r of VStr s \<Rightarrow> s = ''*'' | VVer v \<Rightarrow> valid_version v)"

definition is_any_version :: "'v TcLibraryReference \<Rightarrow> bool" where
  "is_any_version r = (case version r of VStr s \<Rightarrow> s = ''*'' | VVer v \<Rightarrow> False)"

text \<open>\<^verbatim>\<open>__eq__\<close>, for an argument that is a \<^verbatim>\<open>TcLibraryReference\<close>.\<close>

definition ref_eq :: "Version TcLibraryReference \<Rightarrow> Version TcLibraryReference \<Rightarrow> bool" where
  "ref_eq self other =
     ((py_eq (version self) (version other) \<or> is_any_version self \<or> is_any_version other)
      \<and> lower (title self) = lower (title other)
      \<and> lower (company self) = lower (company other))"

text \<open>
  \<^verbatim>\<open>__gt__\<close>. The comparison of the versions comes first in the conjunction and is
  skipped when \<^verbatim>\<open>self\<close> has the wildcard; when it raises, so does \<^verbatim>\<open>__gt__\<close>.
\<close>

definition ref_gt :: "Version TcLibraryReference \<Rightarrow> Version TcLibraryReference \<Rightarrow> exn + bool" where
  "ref_gt self other =
     (case (if is_any_version self then Inr True else py_gt (version self) (version other)) of
        Inl e \<Rightarrow> Inl e
      | Inr newer \<Rightarrow>
          Inr (newer \<and> lower (title self) = lower (title other)
                     \<and> lower (company self) = lower (company other)))"

text \<open>\<^verbatim>\<open>__ge__\<close>: \<^verbatim>\<open>self.__gt__(other) or self.__eq__(other)\<close>.\<close>

definition ref_ge :: "Version TcLibraryReference \<Rightarrow> Version TcLibraryReference \<Rightarrow> exn + bool" where
  "ref_ge self other =
     (case ref_gt self other of
        Inl e \<Rightarrow> Inl e
      | Inr newer \<Rightarrow> if newer then Inr True else Inr (ref_eq self other))"

subsection \<open>Rendering and parsing versions\<close>

text \<open>
  \<^verbatim>\<open>str(version)\<close> writes the numbers of the release in decimal, joined by dots.
  \<open>version_parse\<close> reads such a text back: the text is cut at the dots and every piece
  must be a non-empty run of decimal digits. On these texts it is the parser of the
  library. It is not the parser of the library on other texts (the library also reads a
  leading \<^verbatim>\<open>v\<close>, surrounding blanks, epochs, pre-, post- and development releases and
  local labels, which have no place in \<open>Version\<close>): the functions of the source that call
  the parser take it as the parameter \<open>parse\<close>, and \<open>version_parse\<close> is put in its place
  only where every version text at hand is dotted.
\<close>

definition digit_char :: "nat \<Rightarrow> char" where
  "digit_char d = char_of (48 + d)"

definition is_digit :: "char \<Rightarrow> bool" where
  "is_digit c = (CHR ''0'' \<le> c \<and> c \<le> CHR ''9'')"

definition digit_val :: "char \<Rightarrow> nat" where
  "digit_val c = of_char c - 48"

fun show_nat :: "nat \<Rightarrow> string" where
  "show_nat n = (if n < 10 then [digit_char n] else show_nat (n div 10) @ [digit_char (n mod 10)])"

declare show_nat.simps [simp del]

definition read_nat :: "string \<Rightarrow> nat option" where
  "read_nat s =
     (if s \<noteq> [] \<and> list_all is_digit s
      then Some (foldl (\<lambda>n c. 10 * n + digit_val c) 0 s) else None)"

text \<open>\<^verbatim>\<open>sep.join(parts)\<close> and \<^verbatim>\<open>text.split(sep)\<close> for a separator of one character.\<close>

fun join :: "char \<Rightarrow> string list \<Rightarrow> string" where
  "join sep [] = []"
| "join sep [p] = p"
| "join sep (p # q # ps) = p @ sep # join sep (q # ps)"

fun split :: "char \<Rightarrow> string \<Rightarrow> string list" where
  "split sep [] = [[]]"
| "split sep (c # cs) =
     (if c = sep then [] # split sep cs
      else (case split sep cs of p # ps \<Rightarrow> (c # p) # ps | [] \<Rightarrow> [[c]]))"

definition version_str :: "Version \<Rightarrow> string" where
  "version_str v = join (CHR ''.'') (map show_nat (release v))"

definition version_parse :: "string \<Rightarrow> Version option" where
  "version_parse s =
     (case those (map read_nat (split (CHR ''.'') s)) of
        None \<Rightarrow> None
      | Some r \<Rightarrow> Some (Version r))"

text \<open>\<^verbatim>\<open>str\<close> of the version attribute, as the f-string of \<^verbatim>\<open>__str__\<close> formats it.\<close>

fun ver_str :: "Version ver \<Rightarrow> string" where
  "ver_str (VStr s) = s"
| "ver_str (VVer v) = version_str v"

subsection \<open>The regular expression \<^verbatim>\<open>^(.*), (.*) \((.*)\)\<close>\<close>

text \<open>
  \<^verbatim>\<open>re.match\<close> is modelled as the backtracking matcher it is. \<open>dot_star k acc s\<close> is a
  greedy group \<^verbatim>\<open>(.*)\<close> followed by the rest of the pattern \<open>k\<close>: it first lets the group
  take one more character (any character but the newline) and, when the rest of the
  pattern then fails, tries the rest of the pattern at the present position. The
  characters of the group are collected in \<open>acc\<close>, in reverse. \<open>lit\<close> matches literal text.
  The pattern is anchored at the beginning only: text after the closing parenthesis is
  accepted.
\<close>

definition newline :: char where
  "newline = CHR 0x0A"

fun lit :: "string \<Rightarrow> string \<Rightarrow> string option" where
  "lit [] s = Some s"
| "lit (p # ps) [] = None"
| "lit (p # ps) (c # cs) = (if p = c then lit ps cs else None)"

fun dot_star :: "(string \<Rightarrow> 'a option) \<Rightarrow> string \<Rightarrow> string \<Rightarrow> (string \<times> 'a) option" where
  "dot_star k acc [] = map_option (Pair (rev acc)) (k [])"
| "dot_star k acc (c # cs) =
     (if c = newline then map_option (Pair (rev acc)) (k (c # cs))
      else (case dot_star k (c # acc) cs of
              Some r \<Rightarrow> Some r
            | None \<Rightarrow> map_option (Pair (rev acc)) (k (c # cs))))"

definition closing :: "string \<Rightarrow> string option" where
  "closing s = lit '')'' s"

definition company_part :: "string \<Rightarrow> (string \<times> string) option" where
  "company_part s = (case lit '' ('' s of None \<Rightarrow> None | Some s' \<Rightarrow> dot_star closing [] s')"

definition version_part :: "string \<Rightarrow> (string \<times> string \<times> string) option" where
  "version_part s = (case lit '', '' s of None \<Rightarrow> None | Some s' \<Rightarrow> dot_star company_part [] s')"

text \<open>The three groups of the match, or \<open>None\<close> when \<^verbatim>\<open>match\<close> returns \<^verbatim>\<open>None\<close>.\<close>

definition re_match :: "string \<Rightarrow> (string \<times> string \<times> string) option" where
  "re_match s =
     (case dot_star version_part [] s of
        None \<Rightarrow> None
      | Some (g1, g2, g3, rest) \<Rightarrow> Some (g1, g2, g3))"

subsection \<open>\<^verbatim>\<open>parse_string\<close>, \<^verbatim>\<open>from_string\<close> and \<^verbatim>\<open>__str__\<close>\<close>

text \<open>
  \<open>parse\<close> is \<^verbatim>\<open>version_module.parse\<close>, the parser of the library: \<open>None\<close> when it raises
  \<^verbatim>\<open>InvalidVersion\<close>. The body of the \<^verbatim>\<open>try\<close> block: \<^verbatim>\<open>res.group\<close> on a failed match
  raises \<^verbatim>\<open>AttributeError\<close>, and parsing the version text may raise \<^verbatim>\<open>InvalidVersion\<close>.
\<close>

definition parse_string_try ::
  "(string \<Rightarrow> 'v option) \<Rightarrow> string \<Rightarrow> exn + (string \<times> 'v ver \<times> string)" where
  "parse_string_try parse full_name =
     (case re_match full_name of
        None \<Rightarrow> Inl AttributeError
      | Some (t, vtext, c) \<Rightarrow>
          if vtext = ''*'' then Inr (t, VStr vtext, c)
          else (case parse vtext of
                  None \<Rightarrow> Inl InvalidVersion
                | Some v \<Rightarrow> Inr (t, VVer v, c)))"

definition double_quote :: char where
  "double_quote = CHR 0x22"

definition single_quote :: char where
  "single_quote = CHR 0x27"

text \<open>The exception of \<^verbatim>\<open>parse_string\<close>, which the specification calls \<open>InvalidFormatError\<close>.\<close>

definition InvalidFormatError :: "string \<Rightarrow> exn" where
  "InvalidFormatError full_name =
     TcLibraryException (''Invalid library string: '' @ [double_quote] @ full_name @ [double_quote])"

definition parse_string ::
  "(string \<Rightarrow> 'v option) \<Rightarrow> string \<Rightarrow> exn + (string \<times> 'v ver \<times> string)" where
  "parse_string parse full_name =
     (case parse_string_try parse full_name of
        Inl exc \<Rightarrow> Inl (InvalidFormatError full_name)
      | Inr r \<Rightarrow> Inr r)"

definition from_string :: "(string \<Rightarrow> 'v option) \<Rightarrow> string \<Rightarrow> exn + 'v TcLibraryReference" where
  "from_string parse full_name =
     (case parse_string parse full_name of
        Inl e \<Rightarrow> Inl e
      | Inr (t, v, c) \<Rightarrow> Inr \<lparr>title = t, version = v, company = c\<rparr>)"

text \<open>\<^verbatim>\<open>__str__\<close>.\<close>

definition ref_str :: "Version TcLibraryReference \<Rightarrow> string" where
  "ref_str self = title self @ '', '' @ ver_str (version self) @ '' ('' @ company self @ '')''"

subsection \<open>\<^verbatim>\<open>select_latest\<close>\<close>

text \<open>
  \<^verbatim>\<open>sorted(references, key=lambda x: x.version)\<close> is a stable sort that compares keys with
  \<^verbatim>\<open><\<close> only. It is modelled as a stable insertion sort (CPython sorts short lists by
  insertion, too): the elements are taken from left to right, and each is put into the
  sorted part after every element it is not smaller than. A comparison that raises ends
  the sort. Every element is compared with an element of the sorted part, so the sort
  raises \<^verbatim>\<open>TypeError\<close> exactly when the keys mix strings and versions, as any comparison
  sort does.
\<close>

fun insert_pivot ::
  "Version TcLibraryReference \<Rightarrow> Version TcLibraryReference list
     \<Rightarrow> exn + Version TcLibraryReference list" where
  "insert_pivot pivot [] = Inr [pivot]"
| "insert_pivot pivot (a # as) =
     (case py_lt (version pivot) (version a) of
        Inl e \<Rightarrow> Inl e
      | Inr smaller \<Rightarrow>
          if smaller then Inr (pivot # a # as)
          else (case insert_pivot pivot as of Inl e \<Rightarrow> Inl e | Inr r \<Rightarrow> Inr (a # r)))"

fun sorted_from ::
  "Version TcLibraryReference list \<Rightarrow> Version TcLibraryReference list
     \<Rightarrow> exn + Version TcLibraryReference list" where
  "sorted_from done [] = Inr done"
| "sorted_from done (pivot # rest) =
     (case insert_pivot pivot done of
        Inl e \<Rightarrow> Inl e
      | Inr done' \<Rightarrow> sorted_from done' rest)"

definition sorted_by_version ::
  "Version TcLibraryReference list \<Rightarrow> exn + Version TcLibraryReference list" where
  "sorted_by_version references = sorted_from [] references"

text \<open>The exception of \<^verbatim>\<open>select_latest\<close>, which the specification calls \<open>MismatchedLibraryError\<close>.\<close>

definition MismatchedLibraryError :: exn where
  "MismatchedLibraryError =
     TcLibraryException ''Library references do not have matching title and company''"

definition select_latest ::
  "Version TcLibraryReference list \<Rightarrow> exn + Version TcLibraryReference option" where
  "select_latest references =
     (if references = [] then Inr None
      else if length references = 1 then Inr (Some (references ! 0))
      else if list_ex (\<lambda>ref. title ref \<noteq> title (references ! 0)
                             \<or> company ref \<noteq> company (references ! 0)) references
      then Inl MismatchedLibraryError
      else (case sorted_by_version references of
              Inl e \<Rightarrow> Inl e
            | Inr s \<Rightarrow> Inr (Some (last s))))"

subsection \<open>The class \<^verbatim>\<open>TcLibrary\<close>\<close>

text \<open>
  A path is the list of its components. The file system says what is at a path (a file,
  a directory or nothing; symbolic links are followed, as \<^verbatim>\<open>Path.exists\<close> and
  \<^verbatim>\<open>Path.is_dir\<close> do) and what \<^verbatim>\<open>Path.resolve\<close> makes of a path. Of the content of a file
  it gives what the constructor reads through \<^verbatim>\<open>ElementTree\<close>: the \<^verbatim>\<open>Name\<close> attribute of the
  root element, and the texts of the elements \<^verbatim>\<open>Title\<close>, \<^verbatim>\<open>ProjectVersion\<close> and
  \<^verbatim>\<open>Company\<close>; each is \<open>None\<close> when reading it raises. A project file whose \<^verbatim>\<open>Title\<close> or
  \<^verbatim>\<open>Company\<close> element has no text would give an instance with \<^verbatim>\<open>None\<close> for a title or
  company, against the declared type \<^verbatim>\<open>str\<close> of the attribute; the model has no such
  instance, and such files are outside it.
\<close>

type_synonym path = "string list"

datatype kind = File | Directory

record filesystem =
  resolve :: "path \<Rightarrow> path"
  entry :: "path \<Rightarrow> kind option"
  root_name :: "path \<Rightarrow> string option"
  project_texts :: "path \<Rightarrow> (string \<times> string \<times> string) option"

text \<open>\<^verbatim>\<open>Path.exists\<close> and \<^verbatim>\<open>Path.is_dir\<close>.\<close>

definition exists :: "filesystem \<Rightarrow> path \<Rightarrow> bool" where
  "exists fs p = (entry fs p \<noteq> None)"

definition is_dir :: "filesystem \<Rightarrow> path \<Rightarrow> bool" where
  "is_dir fs p = (entry fs p = Some Directory)"

text \<open>
  \<^verbatim>\<open>ElementTree.parse(p)\<close> opens the file: it raises unless there is a file at the path.
\<close>

definition parse_root_name :: "filesystem \<Rightarrow> path \<Rightarrow> string option" where
  "parse_root_name fs p = (if entry fs p = Some File then root_name fs p else None)"

definition parse_project_texts :: "filesystem \<Rightarrow> path \<Rightarrow> (string \<times> string \<times> string) option" where
  "parse_project_texts fs p = (if entry fs p = Some File then project_texts fs p else None)"

definition path_str :: "path \<Rightarrow> string" where
  "path_str p = join (CHR ''/'') p"

record 'v TcLibrary = "'v TcLibraryReference" +
  path :: path

text \<open>
  The live instances of the process, each with the resolved path it is bound to: the
  registry of \<^verbatim>\<open>UniquePath\<close>.
\<close>

type_synonym 'v process = "(path \<times> 'v TcLibrary) list"

text \<open>
  Modelled from the spec: \<^verbatim>\<open>UniquePath.__init__\<close> of \<^verbatim>\<open>tcclitools/uniquepath.py\<close>, which
  is not among the sources. The specification says that constructing a second instance for
  a path already bound to a live instance fails with \<open>DuplicatePathError\<close>, through a
  process-wide registry keyed by the resolved absolute path. The result is the key under
  which the new instance is registered. What the class does with \<^verbatim>\<open>_allowed_types\<close> is
  not described and not modelled.
\<close>

definition UniquePath_init :: "filesystem \<Rightarrow> 'v process \<Rightarrow> path \<Rightarrow> exn + path" where
  "UniquePath_init fs live p =
     (if resolve fs p \<in> set (map fst live) then Inl DuplicatePathError
      else Inr (resolve fs p))"

text \<open>The two \<^verbatim>\<open>try\<close> blocks of \<^verbatim>\<open>TcLibrary.__init__\<close>.\<close>

definition browsercache_try ::
  "(string \<Rightarrow> 'v option) \<Rightarrow> filesystem \<Rightarrow> path \<Rightarrow> exn + (string \<times> 'v ver \<times> string)" where
  "browsercache_try parse fs path_browsercache =
     (case parse_root_name fs path_browsercache of
        None \<Rightarrow> Inl XmlError
      | Some full_name \<Rightarrow> parse_string parse full_name)"

definition plcproj_try ::
  "(string \<Rightarrow> 'v option) \<Rightarrow> filesystem \<Rightarrow> path \<Rightarrow> exn + (string \<times> 'v ver \<times> string)" where
  "plcproj_try parse fs p =
     (case parse_project_texts fs p of
        None \<Rightarrow> Inl XmlError
      | Some (t, vtext, c) \<Rightarrow>
          (case parse vtext of
             None \<Rightarrow> Inl InvalidVersion
           | Some v \<Rightarrow> Inr (t, VVer v, c)))"

definition missing_browsercache :: "path \<Rightarrow> exn" where
  "missing_browsercache p =
     FileNotFoundError
       (''Missing browsercache file in directory '' @ [single_quote] @ path_str p @ [single_quote])"

definition invalid_browsercache :: "path \<Rightarrow> exn" where
  "invalid_browsercache path_browsercache =
     TcLibraryException
       (''Invalid browsercache file: '' @ [double_quote] @ path_str path_browsercache
          @ [double_quote])"

text \<open>
  The statements of \<^verbatim>\<open>TcLibrary.__init__\<close> after the call of \<^verbatim>\<open>UniquePath.__init__\<close>:
  the fields are read from the directory or from the project file. \<open>bound\<close> is the path
  \<^verbatim>\<open>UniquePath.__init__\<close> has left in \<^verbatim>\<open>self.path\<close>, which the branch of the directory
  overwrites.
\<close>

definition TcLibrary_init_body ::
  "(string \<Rightarrow> 'v option) \<Rightarrow> filesystem \<Rightarrow> path \<Rightarrow> path \<Rightarrow> exn + 'v TcLibrary" where
  "TcLibrary_init_body parse fs p bound =
     (if is_dir fs p then
        (if \<not> exists fs (p @ [''browsercache'']) then Inl (missing_browsercache p)
         else (case browsercache_try parse fs (p @ [''browsercache'']) of
                 Inl exc \<Rightarrow> Inl (invalid_browsercache (p @ [''browsercache'']))
               | Inr (t, v, c) \<Rightarrow>
                   Inr \<lparr>title = t, version = v, company = c, path = p\<rparr>))
      else
        (case plcproj_try parse fs p of
           Inl exc \<Rightarrow>
             Inl (TcLibraryException
                    (''Not a valid library: '' @ [double_quote] @ path_str p @ [double_quote]))
         | Inr (t, v, c) \<Rightarrow>
             Inr \<lparr>title = t, version = v, company = c, path = bound\<rparr>))"

text \<open>
  \<^verbatim>\<open>TcLibrary.__init__\<close>: the uniqueness of the path is checked first, then the fields are
  read.
\<close>

definition TcLibrary_init ::
  "(string \<Rightarrow> 'v option) \<Rightarrow> filesystem \<Rightarrow> 'v process \<Rightarrow> path \<Rightarrow> exn + 'v TcLibrary" where
  "TcLibrary_init parse fs live p =
     (case UniquePath_init fs live p of
        Inl e \<Rightarrow> Inl e
      | Inr bound \<Rightarrow> TcLibrary_init_body parse fs p bound)"

text \<open>
  The expression \<^verbatim>\<open>TcLibrary(path)\<close>: when the constructor returns, the new instance is
  live and registered under its resolved path; when it raises, no instance comes to life.
\<close>

definition TcLibrary_new ::
  "(string \<Rightarrow> 'v option) \<Rightarrow> filesystem \<Rightarrow> 'v process \<Rightarrow> path
     \<Rightarrow> (exn + 'v TcLibrary) \<times> 'v process" where
  "TcLibrary_new parse fs live p =
     (case TcLibrary_init parse fs live p of
        Inl e \<Rightarrow> (Inl e, live)
      | Inr lib \<Rightarrow> (Inr lib, (resolve fs p, lib) # live))"

text \<open>
  A history of the process: constructions one after the other, each on the file system
  of its time.
\<close>

fun constructions ::
  "(string \<Rightarrow> 'v option) \<Rightarrow> (filesystem \<times> path) list \<Rightarrow> 'v process \<Rightarrow> 'v process" where
  "constructions parse [] live = live"
| "constructions parse ((fs, p) # later) live =
     constructions parse later (snd (TcLibrary_new parse fs live p))"

definition as_reference :: "'v TcLibrary \<Rightarrow> 'v TcLibraryReference" where
  "as_reference self = \<lparr>title = title self, version = version self, company = company self\<rparr>"

subsection \<open>Notions of the specification\<close>

text \<open>
  ``The version of \<open>x\<close> is numerically greater than the version of \<open>y\<close>'': both are
  structured versions and the key of \<open>x\<close> is the greater one.
\<close>

definition numerically_greater :: "Version ver \<Rightarrow> Version ver \<Rightarrow> bool" where
  "numerically_greater x y =
     (case x of
        VStr s \<Rightarrow> False
      | VVer v \<Rightarrow> (case y of VStr s \<Rightarrow> False | VVer w \<Rightarrow> cmpkey w < cmpkey v))"



subsection \<open>Notions for the sort\<close>

text \<open>
  A reference is numeric when its version is a structured version; \<open>key_of\<close> is the key
  its version is compared by. Of two references the later one wins unless it is smaller
  than the earlier: what a stable ascending sort leaves in the last place.
\<close>

definition numeric :: "Version TcLibraryReference \<Rightarrow> bool" where
  "numeric r = (case version r of VStr s \<Rightarrow> False | VVer v \<Rightarrow> True)"

definition key_of :: "Version TcLibraryReference \<Rightarrow> nat list" where
  "key_of r = (case version r of VStr s \<Rightarrow> [] | VVer v \<Rightarrow> cmpkey v)"

definition later_wins ::
  "Version TcLibraryReference \<Rightarrow> Version TcLibraryReference \<Rightarrow> Version TcLibraryReference" where
  "later_wins w p = (if key_of p < key_of w then w else p)"

subsection \<open>An installed library, for the examples\<close>

text \<open>
  A repository folder with a \<^verbatim>\<open>browsercache\<close> file naming the library, the same folder
  after the file has been removed, the same folder with a directory in the place of the
  file, and the instance constructed from the folder.
\<close>

definition repo_dir :: path where
  "repo_dir = [''Managed Libraries'', ''Tc2_Standard'']"

definition fs_installed :: filesystem where
  "fs_installed =
     \<lparr>resolve = (\<lambda>p. p),
      entry = (\<lambda>p. if p = repo_dir then Some Directory
                     else if p = repo_dir @ [''browsercache''] then Some File else None),
      root_name = (\<lambda>p. if p = repo_dir @ [''browsercache'']
                         then Some ''Tc2_Standard, 3.3.3.0 (Beckhoff Automation GmbH)'' else None),
      project_texts = (\<lambda>p. None)\<rparr>"

definition fs_removed :: filesystem where
  "fs_removed =
     fs_installed\<lparr>entry := (\<lambda>p. if p = repo_dir then Some Directory else None),
                   root_name := (\<lambda>p. None)\<rparr>"

definition fs_subdirectory :: filesystem where
  "fs_subdirectory =
     fs_installed\<lparr>entry := (\<lambda>p. if p = repo_dir \<or> p = repo_dir @ [''browsercache'']
                                   then Some Directory else None),
                   root_name := (\<lambda>p. None)\<rparr>"

definition tc2_library :: "Version TcLibrary" where
  "tc2_library =
     \<lparr>title = ''Tc2_Standard'', version = VVer (Version [3, 3, 3, 0]),
      company = ''Beckhoff Automation GmbH'', path = repo_dir\<rparr>"

subsection \<open>Delimiters in a title or a company\<close>

text \<open>
  The text contains a comma followed by a space; the text contains a parenthesis.
\<close>

fun has_comma_space :: "string \<Rightarrow> bool" where
  "has_comma_space (a # b # cs) = ((a = CHR '','' \<and> b = CHR '' '') \<or> has_comma_space (b # cs))"
| "has_comma_space cs = False"

definition has_parenthesis :: "string \<Rightarrow> bool" where
  "has_parenthesis s = (CHR ''('' \<in> set s \<or> CHR '')'' \<in> set s)"

section \<open>Properties\<close>

subsection \<open>Equality of references\<close>

lemma is_any_version_iff: "is_any_version r \<longleftrightarrow> version r = VStr ''*''"
  by (cases "version r") (simp_all add: is_any_version_def)

text \<open>A small letter has no smaller letter: lowering twice is lowering once.\<close>

lemma lower_char_idem: "lower_char (lower_char c) = lower_char c"
proof (cases "is_upper c")
  case True
  then have "(of_char c :: nat) + 32 < 256"
    by (auto simp: is_upper_def)
  then have "of_char (char_of (of_char c + (32::nat))) = (of_char c :: nat) + 32"
    by simp
  with True have "\<not> is_upper (char_of (of_char c + (32::nat)))"
    by (auto simp: is_upper_def)
  with True show ?thesis
    by (simp add: lower_char_def)
next
  case False
  then show ?thesis
    by (simp add: lower_char_def)
qed

lemma lower_idem: "lower (lower s) = lower s"
  by (simp add: lower_def lower_char_idem)

lemma py_eq_iff:
  "py_eq x y \<longleftrightarrow>
     (\<exists>s. x = VStr s \<and> y = VStr s) \<or> (\<exists>v w. x = VVer v \<and> y = VVer w \<and> cmpkey v = cmpkey w)"
  by (cases x; cases y) auto

text \<open>
  Two versions have the same key exactly when their releases differ in trailing zeros
  only.
\<close>

lemma dropWhile_zeros: "dropWhile (\<lambda>x. x = 0) (replicate n (0::nat) @ xs) = dropWhile (\<lambda>x. x = 0) xs"
  by (induction n) simp_all

lemma cmpkey_zeros: "cmpkey (Version (release v @ replicate n 0)) = cmpkey v"
  by (simp add: cmpkey_def dropWhile_zeros)

lemma takeWhile_zeros: "takeWhile (\<lambda>x. x = 0) xs = replicate (length (takeWhile (\<lambda>x. x = 0) xs)) (0::nat)"
  by (induction xs) simp_all

lemma release_cmpkey:
  "release v = cmpkey v @ replicate (length (takeWhile (\<lambda>x. x = 0) (rev (release v)))) 0"
proof -
  let ?z = "takeWhile (\<lambda>x. x = 0) (rev (release v))"
  have "rev (cmpkey v @ rev ?z) = rev (release v)"
    by (simp add: cmpkey_def)
  then have "release v = cmpkey v @ rev ?z"
    by (simp only: rev_is_rev_conv)
  also have "rev ?z = replicate (length ?z) 0"
    by (subst takeWhile_zeros) simp
  finally show ?thesis .
qed

lemma cmpkey_eq_iff:
  "cmpkey v = cmpkey w \<longleftrightarrow>
     (\<exists>m n. release v @ replicate m 0 = release w @ replicate n 0)"
proof
  assume e: "cmpkey v = cmpkey w"
  let ?kv = "length (takeWhile (\<lambda>x. x = 0) (rev (release v)))"
  let ?kw = "length (takeWhile (\<lambda>x. x = 0) (rev (release w)))"
  have "release v @ replicate ?kw 0 = cmpkey v @ replicate (?kv + ?kw) 0"
    by (subst release_cmpkey [of v]) (simp add: replicate_add)
  moreover have "release w @ replicate ?kv 0 = cmpkey w @ replicate (?kw + ?kv) 0"
    by (subst release_cmpkey [of w]) (simp add: replicate_add)
  ultimately have "release v @ replicate ?kw 0 = release w @ replicate ?kv 0"
    using e by (simp add: add.commute)
  then show "\<exists>m n. release v @ replicate m 0 = release w @ replicate n 0"
    by blast
next
  assume "\<exists>m n. release v @ replicate m 0 = release w @ replicate n 0"
  then obtain m n where "release v @ replicate m 0 = release w @ replicate n 0"
    by blast
  then have "cmpkey (Version (release v @ replicate m 0)) = cmpkey (Version (release w @ replicate n 0))"
    by simp
  then show "cmpkey v = cmpkey w"
    by (simp only: cmpkey_zeros)
qed

text \<open>
  Two characters are the same in small letters exactly when they are the same or one is
  the capital of the other.
\<close>

lemma lower_char_eq_iff:
  "lower_char c = lower_char d \<longleftrightarrow>
     c = d \<or> (is_upper c \<and> (of_char d :: nat) = of_char c + 32)
           \<or> (is_upper d \<and> (of_char c :: nat) = of_char d + 32)"
proof -
  have inj: "\<And>x y. (of_char x :: nat) = of_char y \<longleftrightarrow> x = y"
    by simp
  have up: "\<And>x. is_upper x \<Longrightarrow> (of_char (lower_char x) :: nat) = of_char x + 32"
    by (auto simp: lower_char_def is_upper_def)
  have low: "\<And>x. \<not> is_upper x \<Longrightarrow> lower_char x = x"
    by (simp add: lower_char_def)
  have nu: "\<And>x y. is_upper x \<Longrightarrow> (of_char y :: nat) = of_char x + 32 \<Longrightarrow> \<not> is_upper y"
    by (auto simp: is_upper_def)
  show ?thesis
  proof (cases "is_upper c"; cases "is_upper d")
    assume a: "is_upper c" "is_upper d"
    have "lower_char c = lower_char d \<longleftrightarrow> (of_char (lower_char c) :: nat) = of_char (lower_char d)"
      by simp
    also have "\<dots> \<longleftrightarrow> (of_char c :: nat) = of_char d"
      using a by (simp add: up)
    also have "\<dots> \<longleftrightarrow> c = d" by simp
    finally show ?thesis using a nu [of c d] nu [of d c] by blast
  next
    assume a: "is_upper c" "\<not> is_upper d"
    have "lower_char c = lower_char d \<longleftrightarrow> (of_char (lower_char c) :: nat) = of_char d"
      using a by (simp add: low del: of_char_eq_iff) (metis of_char_eq_iff)
    also have "\<dots> \<longleftrightarrow> (of_char d :: nat) = of_char c + 32"
      using a by (auto simp: up)
    finally show ?thesis using a by auto
  next
    assume a: "\<not> is_upper c" "is_upper d"
    have "lower_char c = lower_char d \<longleftrightarrow> (of_char c :: nat) = of_char (lower_char d)"
      using a by (simp add: low del: of_char_eq_iff) (metis of_char_eq_iff)
    also have "\<dots> \<longleftrightarrow> (of_char c :: nat) = of_char d + 32"
      using a by (auto simp: up)
    finally show ?thesis using a by auto
  next
    assume a: "\<not> is_upper c" "\<not> is_upper d"
    then show ?thesis by (auto simp: low)
  qed
qed

text \<open>
  Claim C1. Two references are equal if and only if their titles match without regard to
  case, their companies match without regard to case, and their versions are equal or one
  of the two versions is the wildcard \<^verbatim>\<open>"*"\<close>. Versions are equal when they are the same
  string or versions of the same key (\<^verbatim>\<open>1.0.0\<close> and \<^verbatim>\<open>1\<close> are, \<^verbatim>\<open>1.0\<close> and \<^verbatim>\<open>1.1\<close> are not);
  the keys of two versions are the same exactly when their releases differ in trailing
  zeros only; titles and companies match without regard to case when they are the same in
  small letters, character by character the same or a capital and its small letter, so
  that a reference equals what its own small letters equal. The examples of
  the specification hold: the wildcard equals \<^verbatim>\<open>3.3.3.0\<close>, and \<^verbatim>\<open>tc2_standard\<close> of
  \<^verbatim>\<open>beckhoff\<close> equals \<^verbatim>\<open>TC2_STANDARD\<close> of \<^verbatim>\<open>BECKHOFF\<close>; other titles and other versions are
  not equal.
\<close>

theorem ref_eq_iff:
  "(ref_eq a b \<longleftrightarrow>
      lower (title a) = lower (title b) \<and> lower (company a) = lower (company b)
      \<and> (py_eq (version a) (version b) \<or> version a = VStr ''*'' \<or> version b = VStr ''*''))
   \<and> (py_eq (version a) (version b) \<longleftrightarrow>
        (\<exists>s. version a = VStr s \<and> version b = VStr s)
        \<or> (\<exists>v w. version a = VVer v \<and> version b = VVer w \<and> cmpkey v = cmpkey w))
   \<and> (cmpkey v = cmpkey w \<longleftrightarrow>
        (\<exists>m n. release v @ replicate m 0 = release w @ replicate n 0))
   \<and> (lower s = lower s' \<longleftrightarrow> list_all2 (\<lambda>c d. lower_char c = lower_char d) s s')
   \<and> (lower_char c = lower_char d \<longleftrightarrow>
        c = d \<or> (is_upper c \<and> (of_char d :: nat) = of_char c + 32)
              \<or> (is_upper d \<and> (of_char c :: nat) = of_char d + 32))
   \<and> ref_eq (a\<lparr>title := lower (title a), company := lower (company a)\<rparr>) b = ref_eq a b
   \<and> lower ''Tc2_Standard'' = ''tc2_standard''
   \<and> lower ''TC2_STANDARD'' = ''tc2_standard''
   \<and> lower [CHR 0xC4, CHR 0xD7] = [CHR 0xE4, CHR 0xD7]
   \<and> cmpkey (Version [1, 0, 0]) = cmpkey (Version [1])
   \<and> cmpkey (Version [1, 0]) \<noteq> cmpkey (Version [1, 1])
   \<and> ref_eq \<lparr>title = ''Tc2_Standard'', version = VStr ''*'', company = ''Beckhoff''\<rparr>
             \<lparr>title = ''Tc2_Standard'', version = VVer (Version [3, 3, 3, 0]),
              company = ''Beckhoff''\<rparr>
   \<and> ref_eq \<lparr>title = ''tc2_standard'', version = VVer (Version [1, 0]), company = ''beckhoff''\<rparr>
             \<lparr>title = ''TC2_STANDARD'', version = VVer (Version [1, 0]), company = ''BECKHOFF''\<rparr>
   \<and> ref_eq \<lparr>title = ''A'', version = VVer (Version [1, 0, 0]), company = ''X''\<rparr>
             \<lparr>title = ''A'', version = VVer (Version [1]), company = ''X''\<rparr>
   \<and> \<not> ref_eq \<lparr>title = ''A'', version = VVer (Version [1, 0]), company = ''X''\<rparr>
               \<lparr>title = ''A'', version = VVer (Version [1, 1]), company = ''X''\<rparr>
   \<and> \<not> ref_eq \<lparr>title = ''Tc2_Standard'', version = VVer (Version [1, 0]), company = ''X''\<rparr>
               \<lparr>title = ''Tc3_Standard'', version = VVer (Version [1, 0]), company = ''X''\<rparr>
   \<and> \<not> ref_eq \<lparr>title = ''A'', version = VVer (Version [1, 0]), company = ''X''\<rparr>
               \<lparr>title = ''A'', version = VStr ''1.0'', company = ''X''\<rparr>"
proof (intro conjI)
  show "ref_eq a b \<longleftrightarrow>
      lower (title a) = lower (title b) \<and> lower (company a) = lower (company b)
      \<and> (py_eq (version a) (version b) \<or> version a = VStr ''*'' \<or> version b = VStr ''*'')"
    unfolding ref_eq_def is_any_version_iff by blast
  show "py_eq (version a) (version b) \<longleftrightarrow>
        (\<exists>s. version a = VStr s \<and> version b = VStr s)
        \<or> (\<exists>v w. version a = VVer v \<and> version b = VVer w \<and> cmpkey v = cmpkey w)"
    by (rule py_eq_iff)
  show "cmpkey v = cmpkey w \<longleftrightarrow>
        (\<exists>m n. release v @ replicate m 0 = release w @ replicate n 0)"
    by (rule cmpkey_eq_iff)
  show "lower s = lower s' \<longleftrightarrow> list_all2 (\<lambda>c d. lower_char c = lower_char d) s s'"
    by (auto simp: lower_def list_all2_conv_all_nth list_eq_iff_nth_eq)
  show "lower_char c = lower_char d \<longleftrightarrow>
        c = d \<or> (is_upper c \<and> (of_char d :: nat) = of_char c + 32)
              \<or> (is_upper d \<and> (of_char c :: nat) = of_char d + 32)"
    by (rule lower_char_eq_iff)
  show "ref_eq (a\<lparr>title := lower (title a), company := lower (company a)\<rparr>) b = ref_eq a b"
    by (simp add: ref_eq_def is_any_version_def lower_idem)
  show "lower ''Tc2_Standard'' = ''tc2_standard''"
    by code_simp
  show "lower ''TC2_STANDARD'' = ''tc2_standard''"
    by code_simp
  show "lower [CHR 0xC4, CHR 0xD7] = [CHR 0xE4, CHR 0xD7]"
    by code_simp
  show "cmpkey (Version [1, 0, 0]) = cmpkey (Version [1])"
    by (simp add: cmpkey_def)
  show "cmpkey (Version [1, 0]) \<noteq> cmpkey (Version [1, 1])"
    by (simp add: cmpkey_def)
  show "ref_eq \<lparr>title = ''Tc2_Standard'', version = VStr ''*'', company = ''Beckhoff''\<rparr>
             \<lparr>title = ''Tc2_Standard'', version = VVer (Version [3, 3, 3, 0]),
              company = ''Beckhoff''\<rparr>"
    by code_simp
  show "ref_eq \<lparr>title = ''tc2_standard'', version = VVer (Version [1, 0]), company = ''beckhoff''\<rparr>
             \<lparr>title = ''TC2_STANDARD'', version = VVer (Version [1, 0]), company = ''BECKHOFF''\<rparr>"
    by code_simp
  show "ref_eq \<lparr>title = ''A'', version = VVer (Version [1, 0, 0]), company = ''X''\<rparr>
             \<lparr>title = ''A'', version = VVer (Version [1]), company = ''X''\<rparr>"
    by code_simp
  show "\<not> ref_eq \<lparr>title = ''A'', version = VVer (Version [1, 0]), company = ''X''\<rparr>
               \<lparr>title = ''A'', version = VVer (Version [1, 1]), company = ''X''\<rparr>"
    by code_simp
  show "\<not> ref_eq \<lparr>title = ''Tc2_Standard'', version = VVer (Version [1, 0]), company = ''X''\<rparr>
               \<lparr>title = ''Tc3_Standard'', version = VVer (Version [1, 0]), company = ''X''\<rparr>"
    by code_simp
  show "\<not> ref_eq \<lparr>title = ''A'', version = VVer (Version [1, 0]), company = ''X''\<rparr>
               \<lparr>title = ''A'', version = VStr ''1.0'', company = ''X''\<rparr>"
    by code_simp
qed

text \<open>
  Claim C10. Equality of references is not transitive: there are references \<open>a\<close>, \<open>b\<close>, \<open>c\<close>
  of one title and company, \<open>b\<close> with the wildcard and \<open>a\<close>, \<open>c\<close> with different numeric
  versions, such that \<open>a\<close> equals \<open>b\<close> and \<open>b\<close> equals \<open>c\<close> but \<open>a\<close> does not equal \<open>c\<close>. So
  equality is not an equivalence relation.
\<close>

theorem ref_eq_not_transitive:
  "(\<exists>a b c. title a = title b \<and> title b = title c
      \<and> company a = company b \<and> company b = company c
      \<and> version b = VStr ''*''
      \<and> (\<exists>v w. version a = VVer v \<and> version c = VVer w \<and> cmpkey v \<noteq> cmpkey w)
      \<and> ref_eq a b \<and> ref_eq b c \<and> \<not> ref_eq a c)
   \<and> \<not> transp ref_eq \<and> \<not> equivp ref_eq"
proof -
  let ?a = "\<lparr>title = ''A'', version = VVer (Version [1]), company = ''X''\<rparr>"
  let ?b = "\<lparr>title = ''A'', version = VStr ''*'', company = ''X''\<rparr>"
  let ?c = "\<lparr>title = ''A'', version = VVer (Version [2]), company = ''X''\<rparr>"
  have ab: "ref_eq ?a ?b" and bc: "ref_eq ?b ?c" and ac: "\<not> ref_eq ?a ?c"
    by (simp_all add: ref_eq_def is_any_version_def cmpkey_def)
  have key: "cmpkey (Version [1]) \<noteq> cmpkey (Version [2])"
    by (simp add: cmpkey_def)
  have ex: "\<exists>a b c. title a = title b \<and> title b = title c
      \<and> company a = company b \<and> company b = company c
      \<and> version b = VStr ''*''
      \<and> (\<exists>v w. version a = VVer v \<and> version c = VVer w \<and> cmpkey v \<noteq> cmpkey w)
      \<and> ref_eq a b \<and> ref_eq b c \<and> \<not> ref_eq a c"
    apply (rule exI [of _ ?a], rule exI [of _ ?b], rule exI [of _ ?c])
    using ab bc ac key by simp
  have nt: "\<not> transp ref_eq"
    using ab bc ac by (auto simp only: transp_def)
  then have "\<not> equivp ref_eq"
    using equivp_imp_transp by blast
  with ex nt show ?thesis by blast
qed

subsection \<open>Ordering of references\<close>

text \<open>
  Claim C3 says that for valid references of one title and company \<open>a > b\<close> holds if and
  only if the version of \<open>a\<close> is the wildcard or numerically greater than the version of
  \<open>b\<close>, and that \<open>a > b\<close> is false when title or company differ. \<^verbatim>\<open>__gt__\<close> looks for the
  wildcard on the left only: with a numeric version on the left and the wildcard on the
  right it compares a version with a string and raises \<^verbatim>\<open>TypeError\<close>, whether the titles
  differ or not. \<^verbatim>\<open>__eq__\<close> looks for the wildcard on both sides, and so \<^verbatim>\<open>__ge__\<close> raises
  on two references that are equal.
\<close>

theorem ref_gt_type_error:
  "valid_ref \<lparr>title = ''A'', version = VVer (Version [1, 0]), company = ''X''\<rparr>
   \<and> valid_ref \<lparr>title = ''B'', version = VStr ''*'', company = ''X''\<rparr>
   \<and> lower ''A'' \<noteq> lower ''B''
   \<and> ref_gt \<lparr>title = ''A'', version = VVer (Version [1, 0]), company = ''X''\<rparr>
             \<lparr>title = ''B'', version = VStr ''*'', company = ''X''\<rparr> = Inl TypeError
   \<and> ref_gt \<lparr>title = ''A'', version = VVer (Version [1, 0]), company = ''X''\<rparr>
             \<lparr>title = ''A'', version = VStr ''*'', company = ''X''\<rparr> = Inl TypeError
   \<and> ref_eq \<lparr>title = ''A'', version = VVer (Version [1, 0]), company = ''X''\<rparr>
             \<lparr>title = ''A'', version = VStr ''*'', company = ''X''\<rparr>
   \<and> ref_ge \<lparr>title = ''A'', version = VVer (Version [1, 0]), company = ''X''\<rparr>
             \<lparr>title = ''A'', version = VStr ''*'', company = ''X''\<rparr> = Inl TypeError"
proof -
  have "lower ''A'' \<noteq> lower ''B''"
    by code_simp
  then show ?thesis
    by (simp add: valid_ref_def valid_version_def ref_gt_def ref_ge_def ref_eq_def
        is_any_version_def)
qed

text \<open>
  Everywhere else \<^verbatim>\<open>__gt__\<close> does what the claim says. For valid references \<open>a > b\<close> is
  true if and only if the version of \<open>a\<close> is the wildcard or numerically greater than the
  version of \<open>b\<close>, and title and company match without regard to case; unless \<open>a\<close> has a
  numeric version and \<open>b\<close> the wildcard, \<open>a > b\<close> returns exactly this truth value.
\<close>

lemma ref_gt_comparable:
  assumes "valid_ref a" and "valid_ref b"
  shows "(ref_gt a b = Inr True \<longleftrightarrow>
            (is_any_version a \<or> numerically_greater (version a) (version b))
            \<and> lower (title a) = lower (title b) \<and> lower (company a) = lower (company b))
         \<and> (is_any_version a \<or> \<not> is_any_version b \<longrightarrow>
            ref_gt a b =
              Inr ((is_any_version a \<or> numerically_greater (version a) (version b))
                   \<and> lower (title a) = lower (title b) \<and> lower (company a) = lower (company b)))"
  using assms
  by (cases "version a"; cases "version b")
     (auto simp: ref_gt_def is_any_version_def valid_ref_def numerically_greater_def)

lemma ref_gt_examples:
  "ref_gt \<lparr>title = ''A'', version = VVer (Version [2, 0]), company = ''X''\<rparr>
          \<lparr>title = ''a'', version = VVer (Version [1, 5]), company = ''x''\<rparr> = Inr True"
  "ref_gt \<lparr>title = ''A'', version = VStr ''*'', company = ''X''\<rparr>
          \<lparr>title = ''A'', version = VVer (Version [1, 5]), company = ''X''\<rparr> = Inr True"
  "ref_gt \<lparr>title = ''A'', version = VVer (Version [2, 0]), company = ''X''\<rparr>
          \<lparr>title = ''B'', version = VVer (Version [1, 5]), company = ''X''\<rparr> = Inr False"
  by code_simp+

subsection \<open>Selecting the latest reference\<close>

text \<open>
  Claim C5. Whenever two elements of the list differ in title or company, compared as
  exact strings, \<^verbatim>\<open>select_latest\<close> raises the exception the specification calls
  \<open>MismatchedLibraryError\<close>.
\<close>

theorem select_latest_mismatch:
  assumes "i < length refs" and "j < length refs"
    and "title (refs ! i) \<noteq> title (refs ! j) \<or> company (refs ! i) \<noteq> company (refs ! j)"
  shows "select_latest refs = Inl MismatchedLibraryError"
proof -
  from assms have "i \<noteq> j" by auto
  with assms have len: "refs \<noteq> []" "length refs \<noteq> 1" by auto
  have "\<exists>k<length refs. title (refs ! k) \<noteq> title (refs ! 0)
          \<or> company (refs ! k) \<noteq> company (refs ! 0)"
    using assms by metis
  then have "list_ex (\<lambda>ref. title ref \<noteq> title (refs ! 0)
                 \<or> company ref \<noteq> company (refs ! 0)) refs"
    unfolding list_ex_length by blast
  with len show ?thesis by (simp add: select_latest_def)
qed

text \<open>The example of the specification: titles \<^verbatim>\<open>A\<close> and \<^verbatim>\<open>B\<close>.\<close>

theorem select_latest_mismatch_witness:
  "select_latest [\<lparr>title = ''A'', version = VVer (Version [1, 0]), company = ''X''\<rparr>,
                  \<lparr>title = ''B'', version = VVer (Version [1, 0]), company = ''X''\<rparr>]
     = Inl MismatchedLibraryError"
  using select_latest_mismatch
    [of 0 "[\<lparr>title = ''A'', version = VVer (Version [1, 0]), company = ''X''\<rparr>,
            \<lparr>title = ''B'', version = VVer (Version [1, 0]), company = ''X''\<rparr>]" 1]
  by simp

text \<open>
  Claim C9. There is a list of two or more valid references of one title and company,
  mixing the wildcard (a string) with a parsed version, on which \<^verbatim>\<open>select_latest\<close>
  raises \<^verbatim>\<open>TypeError\<close>: neither a result nor one of the documented errors.
\<close>

theorem select_latest_type_error:
  "\<exists>refs. 2 \<le> length refs \<and> list_all valid_ref refs
     \<and> list_all (\<lambda>r. title r = title (hd refs) \<and> company r = company (hd refs)) refs
     \<and> list_ex is_any_version refs
     \<and> list_ex (\<lambda>r. \<exists>v. version r = VVer v) refs
     \<and> select_latest refs = Inl TypeError"
  apply (rule exI [of _
    "[\<lparr>title = ''Tc2_Standard'', version = VStr ''*'', company = ''Beckhoff''\<rparr>,
      \<lparr>title = ''Tc2_Standard'', version = VVer (Version [3, 3, 3, 0]), company = ''Beckhoff''\<rparr>]"])
  apply (simp add: select_latest_def sorted_by_version_def valid_ref_def valid_version_def
      is_any_version_def)
  done

theorem select_latest_type_error_witness:
  "\<exists>refs. 2 \<le> length refs \<and> list_ex is_any_version refs \<and> select_latest refs = Inl TypeError"
  using select_latest_type_error by blast

subsection \<open>The latest of comparable references\<close>

text \<open>On numeric references the comparison of the sort never raises.\<close>

lemma py_lt_numeric:
  "numeric a \<Longrightarrow> numeric b \<Longrightarrow> py_lt (version a) (version b) = Inr (key_of a < key_of b)"
  by (cases "version a"; cases "version b") (simp_all add: numeric_def key_of_def)

text \<open>
  Putting a pivot into a sorted part keeps it sorted, and its last element is the pivot
  unless the pivot is smaller than the old last element.
\<close>

lemma insert_pivot_last:
  assumes "numeric p" and "list_all numeric xs" and "sorted (map key_of xs)" and "xs \<noteq> []"
  shows "\<exists>ys. insert_pivot p xs = Inr ys \<and> ys \<noteq> [] \<and> list_all numeric ys
           \<and> sorted (map key_of ys) \<and> set ys = insert p (set xs) \<and> last ys = later_wins (last xs) p"
  using assms
proof (induction xs)
  case Nil
  then show ?case by simp
next
  case (Cons a as)
  show ?case
  proof (cases "as = []")
    case True
    with Cons.prems show ?thesis
      by (auto simp: py_lt_numeric later_wins_def)
  next
    case False
    from Cons.prems have na: "numeric a" and nas: "list_all numeric as"
      and sas: "sorted (map key_of as)" and le: "\<forall>x\<in>set as. key_of a \<le> key_of x"
      by auto
    from Cons.IH [OF Cons.prems(1) nas sas False] obtain ys where
      ys: "insert_pivot p as = Inr ys" "ys \<noteq> []" "list_all numeric ys" "sorted (map key_of ys)"
          "set ys = insert p (set as)" "last ys = later_wins (last as) p"
      by blast
    show ?thesis
    proof (cases "key_of p < key_of a")
      case True
      from False le have "key_of a \<le> key_of (last as)" by simp
      with True have "key_of p < key_of (last as)" by simp
      with True Cons.prems False show ?thesis
        by (auto simp: py_lt_numeric later_wins_def)
    next
      case nlt: False
      with ys na le Cons.prems(1) False show ?thesis
        by (auto simp: py_lt_numeric)
    qed
  qed
qed

lemma sorted_from_last:
  assumes "done \<noteq> []" and "list_all numeric done" and "sorted (map key_of done)"
    and "list_all numeric rest"
  shows "\<exists>ys. sorted_from done rest = Inr ys \<and> ys \<noteq> [] \<and> last ys = foldl later_wins (last done) rest"
  using assms
proof (induction rest arbitrary: "done")
  case Nil
  then show ?case by simp
next
  case (Cons p rest)
  from Cons.prems have np: "numeric p" and nr: "list_all numeric rest" by auto
  from insert_pivot_last [OF np Cons.prems(2) Cons.prems(3) Cons.prems(1)] obtain ys where
    ys: "insert_pivot p done = Inr ys" "ys \<noteq> []" "list_all numeric ys" "sorted (map key_of ys)"
        "last ys = later_wins (last done) p"
    by blast
  from Cons.IH [OF ys(2) ys(3) ys(4) nr] ys(1) ys(5) show ?case
    by simp
qed

lemma sorted_by_version_last:
  assumes "list_all numeric (x # xs)"
  shows "\<exists>ys. sorted_by_version (x # xs) = Inr ys \<and> ys \<noteq> [] \<and> last ys = foldl later_wins x xs"
proof -
  from assms have "list_all numeric [x]" "list_all numeric xs" by auto
  from sorted_from_last [of "[x]" xs] this show ?thesis
    by (simp add: sorted_by_version_def)
qed

text \<open>
  The winner of a list is one of its elements, no element is greater, and every element
  after it is smaller.
\<close>

lemma foldl_later_wins:
  "\<exists>i<length (x # xs). foldl later_wins x xs = (x # xs) ! i
      \<and> (\<forall>j<length (x # xs). \<not> key_of ((x # xs) ! i) < key_of ((x # xs) ! j))
      \<and> (\<forall>j<length (x # xs). i < j \<longrightarrow> key_of ((x # xs) ! j) < key_of ((x # xs) ! i))"
proof (induction xs rule: rev_induct)
  case Nil
  then show ?case by simp
next
  case (snoc p xs)
  define l where "l = x # xs"
  from snoc obtain i where i: "i < length l" "foldl later_wins x xs = l ! i"
    "\<forall>j<length l. \<not> key_of (l ! i) < key_of (l ! j)"
    "\<forall>j<length l. i < j \<longrightarrow> key_of (l ! j) < key_of (l ! i)"
    unfolding l_def by blast
  have app: "x # xs @ [p] = l @ [p]" by (simp add: l_def)
  have split: "j < length l \<or> j = length l" if "j < length (l @ [p])" for j
    using that by auto
  show ?case
  proof (cases "key_of p < key_of (l ! i)")
    case True
    have "foldl later_wins x (xs @ [p]) = (l @ [p]) ! i"
      using i(1,2) True by (simp add: later_wins_def nth_append)
    moreover have "\<forall>j<length (l @ [p]). \<not> key_of ((l @ [p]) ! i) < key_of ((l @ [p]) ! j)"
    proof (intro allI impI)
      fix j assume "j < length (l @ [p])"
      then consider "j < length l" | "j = length l" using split by blast
      then show "\<not> key_of ((l @ [p]) ! i) < key_of ((l @ [p]) ! j)"
      proof cases
        case 1
        with i(1,3) show ?thesis by (simp add: nth_append)
      next
        case 2
        with i(1) True show ?thesis by (simp add: nth_append)
      qed
    qed
    moreover have "\<forall>j<length (l @ [p]). i < j \<longrightarrow>
        key_of ((l @ [p]) ! j) < key_of ((l @ [p]) ! i)"
    proof (intro allI impI)
      fix j assume "j < length (l @ [p])" and ij: "i < j"
      then consider "j < length l" | "j = length l" using split by blast
      then show "key_of ((l @ [p]) ! j) < key_of ((l @ [p]) ! i)"
      proof cases
        case 1
        with i(1,4) ij show ?thesis by (simp add: nth_append)
      next
        case 2
        with i(1) True show ?thesis by (simp add: nth_append)
      qed
    qed
    moreover have "i < length (l @ [p])" using i by simp
    ultimately show ?thesis unfolding app by blast
  next
    case False
    have "foldl later_wins x (xs @ [p]) = (l @ [p]) ! length l"
      using i(1,2) False by (simp add: later_wins_def)
    moreover have "\<forall>j<length (l @ [p]). \<not> key_of ((l @ [p]) ! length l) < key_of ((l @ [p]) ! j)"
    proof (intro allI impI)
      fix j assume "j < length (l @ [p])"
      then consider "j < length l" | "j = length l" using split by blast
      then show "\<not> key_of ((l @ [p]) ! length l) < key_of ((l @ [p]) ! j)"
      proof cases
        case 1
        with i(3) have "\<not> key_of (l ! i) < key_of (l ! j)" by blast
        with False have "\<not> key_of p < key_of (l ! j)" by auto
        with 1 show ?thesis by (simp add: nth_append)
      next
        case 2
        then show ?thesis by simp
      qed
    qed
    moreover have "\<forall>j<length (l @ [p]). length l < j \<longrightarrow>
        key_of ((l @ [p]) ! j) < key_of ((l @ [p]) ! length l)"
      by simp
    moreover have "length l < length (l @ [p])" by simp
    ultimately show ?thesis unfolding app by blast
  qed
qed

text \<open>
  For two or more references of one title and company that all have numeric versions,
  \<^verbatim>\<open>select_latest\<close> returns the winner.
\<close>

lemma select_latest_all_numeric:
  assumes "2 \<le> length refs"
    and "list_all (\<lambda>r. title r = title (refs ! 0) \<and> company r = company (refs ! 0)) refs"
    and "list_all numeric refs"
  shows "\<exists>i<length refs. select_latest refs = Inr (Some (refs ! i))
         \<and> (\<forall>j<length refs. py_lt (version (refs ! i)) (version (refs ! j)) = Inr False)
         \<and> (\<forall>j<length refs. i < j \<longrightarrow>
               py_lt (version (refs ! j)) (version (refs ! i)) = Inr True)"
proof -
  from assms(1) obtain y ys where refs: "refs = y # ys"
    by (cases refs) auto
  have nth_num: "numeric (refs ! k)" if "k < length refs" for k
    using assms(3) that by (simp add: list_all_length)
  from assms(2) have same: "\<not> list_ex (\<lambda>ref. title ref \<noteq> title (refs ! 0)
      \<or> company ref \<noteq> company (refs ! 0)) refs"
    by (auto simp: list_all_iff list_ex_iff)
  from sorted_by_version_last [of y ys] assms(3) refs obtain s where
    s: "sorted_by_version refs = Inr s" "last s = foldl later_wins y ys"
    by auto
  from assms(1) have ne: "refs \<noteq> []" "length refs \<noteq> 1" by auto
  from ne same s have sel: "select_latest refs = Inr (Some (foldl later_wins y ys))"
    by (simp add: select_latest_def)
  from foldl_later_wins [of y ys] refs obtain i where
    i: "i < length refs" "foldl later_wins y ys = refs ! i"
       "\<forall>j<length refs. \<not> key_of (refs ! i) < key_of (refs ! j)"
       "\<forall>j<length refs. i < j \<longrightarrow> key_of (refs ! j) < key_of (refs ! i)"
    by auto
  have "\<forall>j<length refs. py_lt (version (refs ! i)) (version (refs ! j)) = Inr False"
    using i(1,3) nth_num by (simp add: py_lt_numeric)
  moreover have "\<forall>j<length refs. i < j \<longrightarrow>
      py_lt (version (refs ! j)) (version (refs ! i)) = Inr True"
    using i(1,4) nth_num by (simp add: py_lt_numeric)
  ultimately show ?thesis
    using sel i(1,2) by auto
qed

text \<open>
  Wildcards are equal strings: the sort leaves a list of wildcards as it is, and the last
  element is returned.
\<close>

lemma py_lt_any:
  "is_any_version a \<Longrightarrow> is_any_version b \<Longrightarrow> py_lt (version a) (version b) = Inr False"
  by (simp add: is_any_version_iff)

lemma insert_pivot_any:
  "is_any_version p \<Longrightarrow> list_all is_any_version xs \<Longrightarrow> insert_pivot p xs = Inr (xs @ [p])"
  by (induction xs) (simp_all add: py_lt_any)

lemma sorted_from_any:
  "list_all is_any_version done \<Longrightarrow> list_all is_any_version rest
     \<Longrightarrow> sorted_from done rest = Inr (done @ rest)"
  by (induction rest arbitrary: "done") (simp_all add: insert_pivot_any)

lemma select_latest_all_any:
  assumes "2 \<le> length refs"
    and "list_all (\<lambda>r. title r = title (refs ! 0) \<and> company r = company (refs ! 0)) refs"
    and "list_all is_any_version refs"
  shows "\<exists>i<length refs. select_latest refs = Inr (Some (refs ! i))
         \<and> (\<forall>j<length refs. py_lt (version (refs ! i)) (version (refs ! j)) = Inr False)
         \<and> (\<forall>j<length refs. i < j \<longrightarrow>
               py_lt (version (refs ! j)) (version (refs ! i)) = Inr True)"
proof -
  from assms(1) have ne: "refs \<noteq> []" "length refs \<noteq> 1" by auto
  from assms(2) have same: "\<not> list_ex (\<lambda>ref. title ref \<noteq> title (refs ! 0)
      \<or> company ref \<noteq> company (refs ! 0)) refs"
    by (auto simp: list_all_iff list_ex_iff)
  have any: "is_any_version (refs ! k)" if "k < length refs" for k
    using assms(3) that by (simp add: list_all_length)
  from assms(3) have "sorted_by_version refs = Inr refs"
    using sorted_from_any [of "[]" refs] by (simp add: sorted_by_version_def)
  with ne same have "select_latest refs = Inr (Some (last refs))"
    by (simp add: select_latest_def)
  with ne have sel: "select_latest refs = Inr (Some (refs ! (length refs - 1)))"
    by (simp add: last_conv_nth)
  from ne have less: "length refs - 1 < length refs" by simp
  have "\<forall>j<length refs. py_lt (version (refs ! (length refs - 1))) (version (refs ! j)) = Inr False"
    using any less by (simp add: py_lt_any)
  moreover have "\<forall>j<length refs. length refs - 1 < j \<longrightarrow>
      py_lt (version (refs ! j)) (version (refs ! (length refs - 1))) = Inr True"
    by auto
  ultimately show ?thesis
    using sel less by blast
qed

text \<open>
  Where the sort does not raise, \<^verbatim>\<open>select_latest\<close> does what claim C2 says: it returns none
  for the empty list and the single element of a one-element list, and for a list of two
  or more references of one title and company whose versions are all numeric, or all the
  wildcard, it returns an element of the list such that no element has a greater version
  and every element after it has a smaller version, the last of the elements of maximum
  version.
\<close>

lemma select_latest_maximum:
  "select_latest [] = Inr None
   \<and> select_latest [x] = Inr (Some x)
   \<and> (2 \<le> length refs
        \<and> list_all (\<lambda>r. title r = title (refs ! 0) \<and> company r = company (refs ! 0)) refs
        \<and> (list_all numeric refs \<or> list_all is_any_version refs) \<longrightarrow>
      (\<exists>i<length refs. select_latest refs = Inr (Some (refs ! i))
         \<and> (\<forall>j<length refs. py_lt (version (refs ! i)) (version (refs ! j)) = Inr False)
         \<and> (\<forall>j<length refs. i < j \<longrightarrow>
               py_lt (version (refs ! j)) (version (refs ! i)) = Inr True)))"
proof (intro conjI impI)
  show "select_latest [] = Inr None"
    by (simp add: select_latest_def)
  show "select_latest [x] = Inr (Some x)"
    by (simp add: select_latest_def)
next
  assume "2 \<le> length refs
    \<and> list_all (\<lambda>r. title r = title (refs ! 0) \<and> company r = company (refs ! 0)) refs
    \<and> (list_all numeric refs \<or> list_all is_any_version refs)"
  then show "\<exists>i<length refs. select_latest refs = Inr (Some (refs ! i))
         \<and> (\<forall>j<length refs. py_lt (version (refs ! i)) (version (refs ! j)) = Inr False)
         \<and> (\<forall>j<length refs. i < j \<longrightarrow>
               py_lt (version (refs ! j)) (version (refs ! i)) = Inr True)"
    using select_latest_all_numeric [of refs] select_latest_all_any [of refs] by blast
qed

text \<open>Versions \<^verbatim>\<open>2.0\<close> and \<^verbatim>\<open>2\<close> tie; the later one is returned.\<close>

lemma select_latest_example:
  "select_latest
          [\<lparr>title = ''A'', version = VVer (Version [1, 0]), company = ''X''\<rparr>,
           \<lparr>title = ''A'', version = VVer (Version [2, 0]), company = ''X''\<rparr>,
           \<lparr>title = ''A'', version = VVer (Version [2]), company = ''X''\<rparr>]
   = Inr (Some \<lparr>title = ''A'', version = VVer (Version [2]), company = ''X''\<rparr>)"
  by (simp add: select_latest_def sorted_by_version_def cmpkey_def)

subsection \<open>The latest of a mixed list\<close>

text \<open>
  Claim C2 says that \<^verbatim>\<open>select_latest\<close> returns the element of the maximum version for
  every list of two or more references of one title and company. On a list that mixes a
  numeric version with the wildcard the sort compares a version with a string and raises
  \<^verbatim>\<open>TypeError\<close>: no element is returned, although \<^verbatim>\<open>__gt__\<close> ranks the wildcard above
  every version.
\<close>

theorem select_latest_mixed:
  "valid_ref \<lparr>title = ''A'', version = VVer (Version [1, 0]), company = ''X''\<rparr>
   \<and> valid_ref \<lparr>title = ''A'', version = VStr ''*'', company = ''X''\<rparr>
   \<and> select_latest [\<lparr>title = ''A'', version = VVer (Version [1, 0]), company = ''X''\<rparr>,
                      \<lparr>title = ''A'', version = VStr ''*'', company = ''X''\<rparr>] = Inl TypeError"
  by (simp add: select_latest_def sorted_by_version_def valid_ref_def valid_version_def)

theorem select_latest_mixed_witness:
  "select_latest [\<lparr>title = ''A'', version = VVer (Version [1, 0]), company = ''X''\<rparr>,
                  \<lparr>title = ''A'', version = VStr ''*'', company = ''X''\<rparr>]
     \<noteq> Inr (Some \<lparr>title = ''A'', version = VStr ''*'', company = ''X''\<rparr>)
   \<and> ref_gt \<lparr>title = ''A'', version = VStr ''*'', company = ''X''\<rparr>
             \<lparr>title = ''A'', version = VVer (Version [1, 0]), company = ''X''\<rparr> = Inr True"
  using select_latest_mixed by (simp add: ref_gt_def is_any_version_def)

subsection \<open>Parsing a reference\<close>

lemma lit_Some_iff: "lit p s = Some r \<longleftrightarrow> s = p @ r"
  by (induction p s rule: lit.induct) auto

lemma lit_None_iff: "lit p s = None \<longleftrightarrow> (\<forall>r. s \<noteq> p @ r)"
  by (induction p s rule: lit.induct) auto

text \<open>
  A greedy group followed by the rest of the pattern fails exactly when the rest of the
  pattern fails after every prefix free of newlines.
\<close>

lemma dot_star_None_iff:
  "dot_star k acc s = None \<longleftrightarrow> (\<forall>u v. s = u @ v \<and> newline \<notin> set u \<longrightarrow> k v = None)"
proof (induction s arbitrary: acc)
  case Nil
  then show ?case by simp
next
  case (Cons c cs)
  show ?case
  proof (cases "c = newline")
    case True
    have "(\<forall>u v. c # cs = u @ v \<and> newline \<notin> set u \<longrightarrow> k v = None) \<longleftrightarrow> k (c # cs) = None"
    proof
      assume "\<forall>u v. c # cs = u @ v \<and> newline \<notin> set u \<longrightarrow> k v = None"
      then have "c # cs = [] @ (c # cs) \<and> newline \<notin> set [] \<longrightarrow> k (c # cs) = None" by blast
      then show "k (c # cs) = None" by simp
    next
      assume kn: "k (c # cs) = None"
      show "\<forall>u v. c # cs = u @ v \<and> newline \<notin> set u \<longrightarrow> k v = None"
      proof (intro allI impI)
        fix u v assume uv: "c # cs = u @ v \<and> newline \<notin> set u"
        with True have "u = []" by (cases u) auto
        with uv kn show "k v = None" by simp
      qed
    qed
    with True show ?thesis by simp
  next
    case False
    have "(\<forall>u v. c # cs = u @ v \<and> newline \<notin> set u \<longrightarrow> k v = None)
          \<longleftrightarrow> k (c # cs) = None \<and> (\<forall>u v. cs = u @ v \<and> newline \<notin> set u \<longrightarrow> k v = None)"
    proof (intro iffI conjI allI impI)
      assume a: "\<forall>u v. c # cs = u @ v \<and> newline \<notin> set u \<longrightarrow> k v = None"
      then have "c # cs = [] @ (c # cs) \<and> newline \<notin> set [] \<longrightarrow> k (c # cs) = None" by blast
      then show "k (c # cs) = None" by simp
      fix u v assume "cs = u @ v \<and> newline \<notin> set u"
      with False have "c # cs = (c # u) @ v \<and> newline \<notin> set (c # u)" by auto
      with a show "k v = None" by blast
    next
      fix u v
      assume b: "k (c # cs) = None \<and> (\<forall>u v. cs = u @ v \<and> newline \<notin> set u \<longrightarrow> k v = None)"
        and uv: "c # cs = u @ v \<and> newline \<notin> set u"
      show "k v = None"
      proof (cases u)
        case Nil
        with b uv show ?thesis by simp
      next
        case (Cons d u')
        with uv have "cs = u' @ v \<and> newline \<notin> set u'" by auto
        with b show ?thesis by blast
      qed
    qed
    moreover have "dot_star k acc (c # cs) = None
          \<longleftrightarrow> k (c # cs) = None \<and> dot_star k (c # acc) cs = None"
      using False by (cases "dot_star k (c # acc) cs") auto
    ultimately show ?thesis
      using Cons.IH [of "c # acc"] by simp
  qed
qed

lemma dot_star_Some_ex:
  "dot_star k acc s \<noteq> None \<longleftrightarrow> (\<exists>u v. s = u @ v \<and> newline \<notin> set u \<and> k v \<noteq> None)"
  unfolding dot_star_None_iff by simp

lemma lit_bind_iff:
  "(case lit p s of None \<Rightarrow> None | Some s' \<Rightarrow> f s') \<noteq> None
     \<longleftrightarrow> (\<exists>s'. s = p @ s' \<and> f s' \<noteq> None)"
proof (cases "lit p s")
  case None
  then have "\<forall>r. s \<noteq> p @ r" by (simp add: lit_None_iff)
  with None show ?thesis by simp
next
  case (Some s')
  then have "s = p @ s'" by (simp add: lit_Some_iff)
  with Some show ?thesis by simp
qed

lemma group_iff:
  "(case lit p s of None \<Rightarrow> None | Some s' \<Rightarrow> dot_star k [] s') \<noteq> None
     \<longleftrightarrow> (\<exists>g rest. s = p @ g @ rest \<and> newline \<notin> set g \<and> k rest \<noteq> None)"
proof -
  have "(case lit p s of None \<Rightarrow> None | Some s' \<Rightarrow> dot_star k [] s') \<noteq> None
     \<longleftrightarrow> (\<exists>s'. s = p @ s' \<and> dot_star k [] s' \<noteq> None)"
    by (rule lit_bind_iff)
  also have "\<dots> \<longleftrightarrow> (\<exists>s'. s = p @ s' \<and> (\<exists>u v. s' = u @ v \<and> newline \<notin> set u \<and> k v \<noteq> None))"
    by (simp only: dot_star_Some_ex)
  also have "\<dots> \<longleftrightarrow> (\<exists>g rest. s = p @ g @ rest \<and> newline \<notin> set g \<and> k rest \<noteq> None)"
    by blast
  finally show ?thesis .
qed

lemma closing_iff: "closing s \<noteq> None \<longleftrightarrow> (\<exists>rest. s = '')'' @ rest)"
  by (cases s) (auto simp: closing_def)

lemma company_part_iff:
  "company_part s \<noteq> None \<longleftrightarrow> (\<exists>c rest. s = '' ('' @ c @ '')'' @ rest \<and> newline \<notin> set c)"
proof -
  have "company_part s \<noteq> None \<longleftrightarrow>
      (\<exists>g rest. s = '' ('' @ g @ rest \<and> newline \<notin> set g \<and> closing rest \<noteq> None)"
    unfolding company_part_def by (rule group_iff)
  also have "\<dots> \<longleftrightarrow>
      (\<exists>g rest. s = '' ('' @ g @ rest \<and> newline \<notin> set g \<and> (\<exists>r. rest = '')'' @ r))"
    by (simp only: closing_iff)
  also have "\<dots> \<longleftrightarrow> (\<exists>c rest. s = '' ('' @ c @ '')'' @ rest \<and> newline \<notin> set c)"
    by blast
  finally show ?thesis .
qed

lemma version_part_iff:
  "version_part s \<noteq> None \<longleftrightarrow>
     (\<exists>vt c rest. s = '', '' @ vt @ '' ('' @ c @ '')'' @ rest
        \<and> newline \<notin> set vt \<and> newline \<notin> set c)"
proof -
  have "version_part s \<noteq> None \<longleftrightarrow>
      (\<exists>g rest. s = '', '' @ g @ rest \<and> newline \<notin> set g \<and> company_part rest \<noteq> None)"
    unfolding version_part_def by (rule group_iff)
  also have "\<dots> \<longleftrightarrow>
      (\<exists>g rest. s = '', '' @ g @ rest \<and> newline \<notin> set g
         \<and> (\<exists>c r. rest = '' ('' @ c @ '')'' @ r \<and> newline \<notin> set c))"
    by (simp only: company_part_iff)
  also have "\<dots> \<longleftrightarrow> (\<exists>vt c rest. s = '', '' @ vt @ '' ('' @ c @ '')'' @ rest
        \<and> newline \<notin> set vt \<and> newline \<notin> set c)"
    by blast
  finally show ?thesis .
qed






















subsection \<open>Libraries and their paths\<close>

lemma parse_tc2:
  "parse_string version_parse ''Tc2_Standard, 3.3.3.0 (Beckhoff Automation GmbH)''
     = Inr (''Tc2_Standard'', VVer (Version [3, 3, 3, 0]), ''Beckhoff Automation GmbH'')"
  by code_simp

lemma first_construction:
  "TcLibrary_new version_parse fs_installed [] repo_dir = (Inr tc2_library, [(repo_dir, tc2_library)])"
  by (simp add: TcLibrary_new_def TcLibrary_init_def TcLibrary_init_body_def UniquePath_init_def
      browsercache_try_def is_dir_def exists_def parse_root_name_def fs_installed_def
      tc2_library_def parse_tc2)

lemma TcLibrary_new_bound:
  assumes "resolve fs p \<in> set (map fst live)"
  shows "TcLibrary_new parse fs live p = (Inl DuplicatePathError, live)"
  using assms by (simp add: TcLibrary_new_def TcLibrary_init_def UniquePath_init_def)

lemma TcLibrary_init_unbound:
  assumes "TcLibrary_init parse fs live p = Inr lib"
  shows "resolve fs p \<notin> set (map fst live)"
  using assms by (auto simp: TcLibrary_init_def UniquePath_init_def split: if_splits)

lemma TcLibrary_new_distinct:
  assumes "distinct (map fst live)"
  shows "distinct (map fst (snd (TcLibrary_new parse fs live p)))"
proof (cases "TcLibrary_init parse fs live p")
  case (Inl e)
  with assms show ?thesis by (simp add: TcLibrary_new_def)
next
  case (Inr lib)
  from TcLibrary_init_unbound [OF Inr] assms Inr show ?thesis
    by (simp add: TcLibrary_new_def)
qed

lemma constructions_distinct:
  "distinct (map fst live) \<Longrightarrow> distinct (map fst (constructions parse history live))"
proof (induction history arbitrary: live)
  case Nil
  then show ?case by simp
next
  case (Cons step history)
  obtain fs p where step: "step = (fs, p)" by (cases step)
  from Cons.prems have "distinct (map fst (snd (TcLibrary_new parse fs live p)))"
    by (rule TcLibrary_new_distinct)
  from Cons.IH [OF this] step show ?case by simp
qed

text \<open>
  Claim C7. Constructing a library for a path whose resolved form is already bound to a
  live instance fails with \<open>DuplicatePathError\<close> and leaves the live instances as they
  were; a construction keeps the resolved paths of the live instances distinct, and so
  they are distinct after every history of constructions that starts with no instance.
\<close>

theorem path_uniqueness:
  "(resolve fs p \<in> set (map fst live) \<longrightarrow>
      TcLibrary_new parse fs live p = (Inl DuplicatePathError, live))
   \<and> (distinct (map fst live) \<longrightarrow> distinct (map fst (snd (TcLibrary_new parse fs live p))))
   \<and> distinct (map fst (constructions parse history []))"
  using TcLibrary_new_bound [of fs p live parse] TcLibrary_new_distinct [of live parse fs p]
    constructions_distinct [of "[]" parse history]
  by simp

theorem path_uniqueness_witness:
  "resolve fs_installed repo_dir \<in> set (map fst [(repo_dir, tc2_library)])
   \<and> distinct (map fst [(repo_dir, tc2_library)])
   \<and> TcLibrary_new version_parse fs_installed [] repo_dir = (Inr tc2_library, [(repo_dir, tc2_library)])
   \<and> TcLibrary_new version_parse fs_installed [(repo_dir, tc2_library)] repo_dir
       = (Inl DuplicatePathError, [(repo_dir, tc2_library)])"
proof -
  have bound: "resolve fs_installed repo_dir \<in> set (map fst [(repo_dir, tc2_library)])"
    by (simp add: fs_installed_def)
  have "distinct (map fst [(repo_dir, tc2_library)])"
    by simp
  with bound first_construction
    path_uniqueness [of fs_installed repo_dir "[(repo_dir, tc2_library)]" version_parse "[]"]
  show ?thesis by blast
qed

subsection \<open>A folder without \<^verbatim>\<open>browsercache\<close>\<close>

text \<open>
  Claim C8, as stated, promises \<^verbatim>\<open>FileNotFoundError\<close> for every directory that does not
  contain a file named \<^verbatim>\<open>browsercache\<close>. The constructor asks whether anything exists at
  that path, not whether a file does: in a folder where \<^verbatim>\<open>browsercache\<close> is a directory
  there is no such file, the test passes, reading the directory as XML raises, and the
  constructor fails with \<^verbatim>\<open>TcLibraryException\<close>.
\<close>

theorem missing_browsercache_counterexample:
  "is_dir fs_subdirectory repo_dir
   \<and> entry fs_subdirectory (repo_dir @ [''browsercache'']) \<noteq> Some File
   \<and> TcLibrary_init_body version_parse fs_subdirectory repo_dir repo_dir
       = Inl (TcLibraryException
                (''Invalid browsercache file: '' @ [double_quote]
                   @ ''Managed Libraries/Tc2_Standard/browsercache'' @ [double_quote]))"
proof (intro conjI)
  show "is_dir fs_subdirectory repo_dir"
    by (simp add: is_dir_def fs_subdirectory_def)
  show "entry fs_subdirectory (repo_dir @ [''browsercache'']) \<noteq> Some File"
    by (simp add: fs_subdirectory_def)
  have "path_str (repo_dir @ [''browsercache'']) = ''Managed Libraries/Tc2_Standard/browsercache''"
    by (simp add: path_str_def repo_dir_def)
  then show "TcLibrary_init_body version_parse fs_subdirectory repo_dir repo_dir
       = Inl (TcLibraryException
                (''Invalid browsercache file: '' @ [double_quote]
                   @ ''Managed Libraries/Tc2_Standard/browsercache'' @ [double_quote]))"
    by (simp add: TcLibrary_init_body_def is_dir_def exists_def browsercache_try_def
        parse_root_name_def invalid_browsercache_def fs_subdirectory_def)
qed

text \<open>
  In a directory the constructor raises \<^verbatim>\<open>FileNotFoundError\<close> only when there is nothing
  named \<^verbatim>\<open>browsercache\<close> in it.
\<close>

lemma browsercache_present:
  assumes "is_dir fs p" and "entry fs (p @ [''browsercache'']) \<noteq> None"
  shows "TcLibrary_init_body parse fs p bound \<noteq> Inl (FileNotFoundError msg)"
  using assms
  by (simp add: TcLibrary_init_body_def exists_def invalid_browsercache_def
      split: sum.splits prod.splits)

text \<open>
  Claim C8, amended. For every directory that has nothing named \<^verbatim>\<open>browsercache\<close> directly
  inside it, neither a file nor a directory, the statements of the constructor that
  follow the call of \<^verbatim>\<open>UniquePath.__init__\<close> raise \<^verbatim>\<open>FileNotFoundError\<close> with the message
  \<^verbatim>\<open>Missing browsercache file in directory '<path>'\<close>, which names the directory, whatever
  the version parser does and whatever path \<^verbatim>\<open>UniquePath.__init__\<close> has bound.
\<close>

theorem missing_browsercache_absent:
  assumes "is_dir fs p"
    and "entry fs (p @ [''browsercache'']) = None"
  shows "TcLibrary_init_body parse fs p bound
           = Inl (FileNotFoundError
                    (''Missing browsercache file in directory '' @ [single_quote]
                       @ path_str p @ [single_quote]))"
  using assms
  by (simp add: TcLibrary_init_body_def exists_def missing_browsercache_def)

theorem missing_browsercache_absent_witness:
  "is_dir fs_removed repo_dir
   \<and> entry fs_removed (repo_dir @ [''browsercache'']) = None
   \<and> TcLibrary_init_body version_parse fs_removed repo_dir repo_dir
       = Inl (FileNotFoundError
                (''Missing browsercache file in directory '' @ [single_quote]
                   @ ''Managed Libraries/Tc2_Standard'' @ [single_quote]))"
proof -
  have a: "is_dir fs_removed repo_dir"
    by (simp add: is_dir_def fs_removed_def fs_installed_def)
  have b: "entry fs_removed (repo_dir @ [''browsercache'']) = None"
    by (simp add: fs_removed_def)
  have c: "path_str repo_dir = ''Managed Libraries/Tc2_Standard''"
    by (simp add: path_str_def repo_dir_def)
  from missing_browsercache_absent [OF a b, of version_parse repo_dir] a b c show ?thesis
    by simp
qed

subsection \<open>Rendering and parsing back\<close>

text \<open>
  A greedy group takes the longest prefix free of newlines after which the rest of the
  pattern matches.
\<close>

lemma dot_star_longest:
  assumes "newline \<notin> set g" and "k rest = Some r"
    and "\<forall>u v. rest = u @ v \<and> u \<noteq> [] \<and> newline \<notin> set u \<longrightarrow> k v = None"
  shows "dot_star k acc (g @ rest) = Some (rev acc @ g, r)"
  using assms(1)
proof (induction g arbitrary: acc)
  case Nil
  show ?case
  proof (cases rest)
    case Nil
    with assms(2) show ?thesis by simp
  next
    case (Cons c cs)
    show ?thesis
    proof (cases "c = newline")
      case True
      with Cons assms(2) show ?thesis by simp
    next
      case False
      have "dot_star k (c # acc) cs = None"
        unfolding dot_star_None_iff
      proof (intro allI impI)
        fix u v assume "cs = u @ v \<and> newline \<notin> set u"
        with Cons False have "rest = (c # u) @ v \<and> c # u \<noteq> [] \<and> newline \<notin> set (c # u)"
          by simp
        with assms(3) show "k v = None" by blast
      qed
      with Cons False assms(2) show ?thesis by simp
    qed
  qed
next
  case (Cons c g)
  then have "c \<noteq> newline" and "newline \<notin> set g" by auto
  with Cons.IH [of "c # acc"] show ?case by simp
qed

lemma closing_group:
  assumes "newline \<notin> set c"
  shows "dot_star closing [] (c @ '')'') = Some (c, [])"
proof -
  have "closing '')'' = Some []" by (simp add: closing_def)
  moreover have "\<forall>u v. '')'' = u @ v \<and> u \<noteq> [] \<and> newline \<notin> set u \<longrightarrow> closing v = None"
    by (auto simp: closing_def Cons_eq_append_conv)
  ultimately show ?thesis
    using dot_star_longest [OF assms, of closing "'')''" "[]" "[]"] by simp
qed

lemma company_part_rendered:
  assumes "newline \<notin> set c"
  shows "company_part ('' ('' @ c @ '')'') = Some (c, [])"
  using closing_group [OF assms] by (simp add: company_part_def)

lemma company_part_paren:
  assumes "company_part v \<noteq> None"
  shows "\<exists>w. v = CHR '' '' # CHR ''('' # w"
  using assms unfolding company_part_iff by auto

lemma version_group:
  assumes "newline \<notin> set vt" and "newline \<notin> set c" and "CHR ''('' \<notin> set c"
  shows "dot_star company_part [] (vt @ '' ('' @ c @ '')'') = Some (vt, c, [])"
proof -
  have "\<forall>u v. '' ('' @ c @ '')'' = u @ v \<and> u \<noteq> [] \<and> newline \<notin> set u \<longrightarrow> company_part v = None"
  proof (intro allI impI, rule ccontr)
    fix u v assume uv: "'' ('' @ c @ '')'' = u @ v \<and> u \<noteq> [] \<and> newline \<notin> set u"
      and "company_part v \<noteq> None"
    then obtain w where v: "v = CHR '' '' # CHR ''('' # w"
      using company_part_paren by blast
    from uv obtain u1 where u: "u = CHR '' '' # u1" and r1: "CHR ''('' # c @ '')'' = u1 @ v"
      by (cases u) auto
    from r1 v obtain u2 where r2: "c @ '')'' = u2 @ v"
      by (cases u1) auto
    have "CHR ''('' \<in> set v" using v by simp
    then have "CHR ''('' \<in> set (c @ '')'')" unfolding r2 by simp
    with assms(3) show False by simp
  qed
  with dot_star_longest [OF assms(1), of company_part "'' ('' @ c @ '')''" "(c, [])" "[]"]
    company_part_rendered [OF assms(2)]
  show ?thesis by simp
qed

lemma version_part_rendered:
  assumes "newline \<notin> set vt" and "newline \<notin> set c" and "CHR ''('' \<notin> set c"
  shows "version_part ('', '' @ vt @ '' ('' @ c @ '')'') = Some (vt, c, [])"
  using version_group [OF assms] by (simp add: version_part_def)

lemma version_part_comma:
  assumes "version_part v \<noteq> None"
  shows "\<exists>w. v = CHR '','' # w \<and> CHR ''('' \<in> set w"
  using assms unfolding version_part_iff by auto

lemma title_group:
  assumes "newline \<notin> set t" and "newline \<notin> set vt" and "newline \<notin> set c"
    and "CHR ''('' \<notin> set c" and "CHR '','' \<notin> set vt"
  shows "dot_star version_part [] (t @ '', '' @ vt @ '' ('' @ c @ '')'') = Some (t, vt, c, [])"
proof -
  have "\<forall>u v. '', '' @ vt @ '' ('' @ c @ '')'' = u @ v \<and> u \<noteq> [] \<and> newline \<notin> set u
          \<longrightarrow> version_part v = None"
  proof (intro allI impI, rule ccontr)
    fix u v assume uv: "'', '' @ vt @ '' ('' @ c @ '')'' = u @ v \<and> u \<noteq> [] \<and> newline \<notin> set u"
      and "version_part v \<noteq> None"
    then obtain w where v: "v = CHR '','' # w" and paren: "CHR ''('' \<in> set w"
      using version_part_comma by blast
    from uv obtain u1 where r1: "CHR '' '' # vt @ '' ('' @ c @ '')'' = u1 @ v"
      by (cases u) auto
    from r1 v obtain u2 where r2: "vt @ '' ('' @ c @ '')'' = u2 @ v"
      by (cases u1) auto
    from r2 consider x where "vt = u2 @ x" "v = x @ '' ('' @ c @ '')''"
      | x where "u2 = vt @ x" "'' ('' @ c @ '')'' = x @ v"
      by (auto simp: append_eq_append_conv2)
    then show False
    proof cases
      case 1
      with v assms(5) show ?thesis by (cases x) auto
    next
      case 2
      from 2(2) v obtain x1 where r3: "CHR ''('' # c @ '')'' = x1 @ v"
        by (cases x) auto
      from r3 v obtain x2 where r4: "c @ '')'' = x2 @ v"
        by (cases x1) auto
      have "CHR ''('' \<in> set v" using v paren by simp
      then have "CHR ''('' \<in> set (c @ '')'')" unfolding r4 by simp
      with assms(4) show ?thesis by simp
    qed
  qed
  with dot_star_longest [OF assms(1), of version_part "'', '' @ vt @ '' ('' @ c @ '')''" "(vt, c, [])" "[]"]
    version_part_rendered [OF assms(2,3,4)]
  show ?thesis by simp
qed

lemma re_match_rendered:
  assumes "newline \<notin> set t" and "newline \<notin> set vt" and "newline \<notin> set c"
    and "CHR ''('' \<notin> set c" and "CHR '','' \<notin> set vt"
  shows "re_match (t @ '', '' @ vt @ '' ('' @ c @ '')'') = Some (t, vt, c)"
  using title_group [OF assms] by (simp add: re_match_def)

text \<open>Reading back the decimal text of a number, and the text of a version.\<close>

lemma is_digit_digit_char: "d < 10 \<Longrightarrow> is_digit (digit_char d)"
  by (simp add: is_digit_def digit_char_def less_eq_char_def)

lemma digit_val_digit_char: "d < 10 \<Longrightarrow> digit_val (digit_char d) = d"
  by (simp add: digit_val_def digit_char_def)

lemma show_nat_digits: "list_all is_digit (show_nat n)"
proof (induction n rule: show_nat.induct)
  case (1 n)
  show ?case
  proof (cases "n < 10")
    case True
    then show ?thesis by (simp add: show_nat.simps [of n] is_digit_digit_char)
  next
    case False
    with 1 have "list_all is_digit (show_nat (n div 10))" by simp
    moreover have "is_digit (digit_char (n mod 10))" by (simp add: is_digit_digit_char)
    ultimately show ?thesis
      using False by (subst show_nat.simps) simp
  qed
qed

lemma show_nat_nonempty: "show_nat n \<noteq> []"
  by (subst show_nat.simps) simp

lemma show_nat_value: "foldl (\<lambda>m c. 10 * m + digit_val c) 0 (show_nat n) = n"
proof (induction n rule: show_nat.induct)
  case (1 n)
  show ?case
  proof (cases "n < 10")
    case True
    then show ?thesis by (simp add: show_nat.simps [of n] digit_val_digit_char)
  next
    case False
    with 1 have "foldl (\<lambda>m c. 10 * m + digit_val c) 0 (show_nat (n div 10)) = n div 10"
      by simp
    then show ?thesis
      using False by (subst show_nat.simps) (simp add: digit_val_digit_char)
  qed
qed

lemma read_nat_show_nat: "read_nat (show_nat n) = Some n"
  by (simp add: read_nat_def show_nat_digits show_nat_nonempty show_nat_value)

lemma those_read_show: "those (map read_nat (map show_nat r)) = Some r"
  by (induction r) (simp_all add: read_nat_show_nat)

lemma split_nonempty: "split sep s \<noteq> []"
  by (induction s) (auto split: list.splits)

lemma split_no_sep: "sep \<notin> set p \<Longrightarrow> split sep p = [p]"
  by (induction p) (auto split: list.splits)

lemma split_append: "sep \<notin> set p \<Longrightarrow> split sep (p @ sep # rest) = p # split sep rest"
  by (induction p) (auto split: list.splits simp: split_nonempty)

lemma split_join:
  assumes "parts \<noteq> []" and "\<forall>p\<in>set parts. sep \<notin> set p"
  shows "split sep (join sep parts) = parts"
  using assms
proof (induction sep parts rule: join.induct)
  case (1 sep)
  then show ?case by simp
next
  case (2 sep p)
  then show ?case by (simp add: split_no_sep)
next
  case (3 sep p q ps)
  then show ?case by (simp add: split_append)
qed

lemma set_join: "set (join sep parts) \<subseteq> insert sep (\<Union>p\<in>set parts. set p)"
  by (induction sep parts rule: join.induct) auto

lemma version_str_chars:
  assumes "c \<in> set (version_str v)"
  shows "is_digit c \<or> c = CHR ''.''"
proof -
  from assms set_join [of "CHR ''.''" "map show_nat (release v)"]
  have "c = CHR ''.'' \<or> (\<exists>n. c \<in> set (show_nat n))"
    by (auto simp: version_str_def)
  then show ?thesis
    using show_nat_digits by (auto simp: list_all_iff)
qed

lemma version_parse_str:
  assumes "valid_version v"
  shows "version_parse (version_str v) = Some v"
proof -
  have "\<forall>p\<in>set (map show_nat (release v)). CHR ''.'' \<notin> set p"
  proof
    fix p assume "p \<in> set (map show_nat (release v))"
    then obtain n where "p = show_nat n" by auto
    moreover have "\<not> is_digit (CHR ''.'')"
      by (simp add: is_digit_def less_eq_char_def)
    ultimately show "CHR ''.'' \<notin> set p"
      using show_nat_digits [of n] by (auto simp: list_all_iff)
  qed
  moreover from assms have "map show_nat (release v) \<noteq> []"
    by (simp add: valid_version_def)
  ultimately have "split (CHR ''.'') (version_str v) = map show_nat (release v)"
    unfolding version_str_def by (rule split_join [rotated])
  then show ?thesis
    by (simp add: version_parse_def those_read_show del: map_map)
qed

lemma ver_str_chars:
  assumes "valid_ref r"
  shows "newline \<notin> set (ver_str (version r))" and "CHR '','' \<notin> set (ver_str (version r))"
proof -
  have nd: "\<not> is_digit newline" "\<not> is_digit (CHR '','')"
    by (simp_all add: is_digit_def less_eq_char_def newline_def)
  have ne: "newline \<noteq> CHR ''.''" "CHR '','' \<noteq> CHR ''.''" "newline \<noteq> CHR ''*''"
    by (simp_all add: newline_def)
  show "newline \<notin> set (ver_str (version r))"
  proof (cases "version r")
    case (VStr s)
    with assms ne show ?thesis by (simp add: valid_ref_def)
  next
    case (VVer v)
    with version_str_chars [of newline v] nd ne show ?thesis by auto
  qed
  show "CHR '','' \<notin> set (ver_str (version r))"
  proof (cases "version r")
    case (VStr s)
    with assms show ?thesis by (simp add: valid_ref_def)
  next
    case (VVer v)
    with version_str_chars [of "CHR '',''" v] nd ne show ?thesis by auto
  qed
qed

lemma parse_string_try_rendered:
  assumes "valid_ref r" and "re_match (ref_str r) = Some (title r, ver_str (version r), company r)"
  shows "parse_string_try version_parse (ref_str r) = Inr (title r, version r, company r)"
proof (cases "version r")
  case (VStr s)
  with assms show ?thesis
    by (simp add: parse_string_try_def valid_ref_def)
next
  case (VVer v)
  have "\<not> is_digit (CHR ''*'')" by (simp add: is_digit_def less_eq_char_def)
  with version_str_chars [of "CHR ''*''" v] have "version_str v \<noteq> ''*''"
    by auto
  moreover from assms(1) VVer have "version_parse (version_str v) = Some v"
    by (simp add: valid_ref_def version_parse_str)
  ultimately show ?thesis
    using assms(2) VVer by (simp add: parse_string_try_def)
qed

text \<open>
  The text of a valid reference parses back to the reference when title and company have
  no newline and the company has no opening parenthesis.
\<close>

lemma from_string_rendered:
  assumes "valid_ref r" and "newline \<notin> set (title r)" and "newline \<notin> set (company r)"
    and "CHR ''('' \<notin> set (company r)"
  shows "from_string version_parse (ref_str r) = Inr r"
proof -
  have "re_match (ref_str r) = Some (title r, ver_str (version r), company r)"
    unfolding ref_str_def
    using assms ver_str_chars [OF assms(1)] by (intro re_match_rendered) auto
  from parse_string_try_rendered [OF assms(1) this] show ?thesis
    by (simp add: from_string_def parse_string_def)
qed

text \<open>
  Claim C6, as stated, promises the round trip for every reference whose title and company
  contain no comma-space and no parenthesis. A title with a newline has neither, but the
  groups of the regular expression do not match a newline, and \<^verbatim>\<open>from_string\<close> raises.
\<close>

theorem round_trip_counterexample:
  "valid_ref \<lparr>title = [CHR ''A'', CHR 0x0A, CHR ''B''], version = VVer (Version [1, 0]),
              company = ''X''\<rparr>
   \<and> \<not> has_comma_space [CHR ''A'', CHR 0x0A, CHR ''B'']
   \<and> \<not> has_parenthesis [CHR ''A'', CHR 0x0A, CHR ''B'']
   \<and> \<not> has_comma_space ''X''
   \<and> \<not> has_parenthesis ''X''
   \<and> ref_str \<lparr>title = [CHR ''A'', CHR 0x0A, CHR ''B''], version = VVer (Version [1, 0]),
               company = ''X''\<rparr>
       = [CHR ''A'', CHR 0x0A, CHR ''B''] @ '', 1.0 (X)''
   \<and> from_string version_parse ([CHR ''A'', CHR 0x0A, CHR ''B''] @ '', 1.0 (X)'')
       = Inl (InvalidFormatError ([CHR ''A'', CHR 0x0A, CHR ''B''] @ '', 1.0 (X)''))"
proof -
  have "re_match ([CHR ''A'', CHR 0x0A, CHR ''B''] @ '', 1.0 (X)'') = None"
    by (simp add: re_match_def version_part_def newline_def)
  then have "from_string version_parse ([CHR ''A'', CHR 0x0A, CHR ''B''] @ '', 1.0 (X)'')
       = Inl (InvalidFormatError ([CHR ''A'', CHR 0x0A, CHR ''B''] @ '', 1.0 (X)''))"
    by (simp add: from_string_def parse_string_def parse_string_try_def)
  moreover have "ref_str \<lparr>title = [CHR ''A'', CHR 0x0A, CHR ''B''], version = VVer (Version [1, 0]),
               company = ''X''\<rparr>
       = [CHR ''A'', CHR 0x0A, CHR ''B''] @ '', 1.0 (X)''"
    by code_simp
  ultimately show ?thesis
    by (simp add: valid_ref_def valid_version_def has_parenthesis_def)
qed

text \<open>
  Claim C6, amended. \<^verbatim>\<open>__str__\<close> renders \<^verbatim>\<open><title>, <version> (<company>)\<close>, and for
  every valid reference whose title and company contain no comma-space, no parenthesis
  and no newline, \<^verbatim>\<open>from_string\<close> of the rendered text returns a reference equal to it.
\<close>

theorem round_trip:
  assumes "valid_ref r"
    and "\<not> has_comma_space (title r)" and "\<not> has_comma_space (company r)"
    and "\<not> has_parenthesis (title r)" and "\<not> has_parenthesis (company r)"
    and "newline \<notin> set (title r)" and "newline \<notin> set (company r)"
  shows "ref_str r = title r @ '', '' @ ver_str (version r) @ '' ('' @ company r @ '')''
         \<and> (\<exists>r'. from_string version_parse (ref_str r) = Inr r' \<and> ref_eq r' r)"
proof -
  from assms(5) have "CHR ''('' \<notin> set (company r)"
    by (simp add: has_parenthesis_def)
  with assms(1,6,7) have "from_string version_parse (ref_str r) = Inr r"
    by (simp add: from_string_rendered)
  moreover have "ref_eq r r"
    by (cases "version r") (simp_all add: ref_eq_def)
  ultimately show ?thesis
    by (simp add: ref_str_def)
qed

theorem round_trip_witness:
  "valid_ref \<lparr>title = ''Tc2_Standard'', version = VVer (Version [3, 3, 3, 0]),
              company = ''Beckhoff Automation GmbH''\<rparr>
   \<and> \<not> has_comma_space ''Tc2_Standard''
   \<and> \<not> has_comma_space ''Beckhoff Automation GmbH''
   \<and> \<not> has_parenthesis ''Tc2_Standard''
   \<and> \<not> has_parenthesis ''Beckhoff Automation GmbH''
   \<and> newline \<notin> set ''Tc2_Standard''
   \<and> newline \<notin> set ''Beckhoff Automation GmbH''
   \<and> (\<exists>r'. from_string version_parse
               (ref_str \<lparr>title = ''Tc2_Standard'', version = VVer (Version [3, 3, 3, 0]),
                         company = ''Beckhoff Automation GmbH''\<rparr>) = Inr r'
          \<and> ref_eq r' \<lparr>title = ''Tc2_Standard'', version = VVer (Version [3, 3, 3, 0]),
                        company = ''Beckhoff Automation GmbH''\<rparr>)"
proof -
  let ?r = "\<lparr>title = ''Tc2_Standard'', version = VVer (Version [3, 3, 3, 0]),
             company = ''Beckhoff Automation GmbH''\<rparr>"
  have v: "valid_ref ?r"
    by (simp add: valid_ref_def valid_version_def)
  have c: "\<not> has_comma_space ''Tc2_Standard''" "\<not> has_comma_space ''Beckhoff Automation GmbH''"
    by simp_all
  have p: "\<not> has_parenthesis ''Tc2_Standard''" "\<not> has_parenthesis ''Beckhoff Automation GmbH''"
    by (simp_all add: has_parenthesis_def)
  have n: "newline \<notin> set ''Tc2_Standard''" "newline \<notin> set ''Beckhoff Automation GmbH''"
    by (simp_all add: newline_def)
  have "ref_str ?r = title ?r @ '', '' @ ver_str (version ?r) @ '' ('' @ company ?r @ '')''
         \<and> (\<exists>r'. from_string version_parse (ref_str ?r) = Inr r' \<and> ref_eq r' ?r)"
    using v c p n by (intro round_trip) simp_all
  with v c p n show ?thesis by blast
qed

lemma round_trip_example:
  "from_string version_parse (ref_str \<lparr>title = ''Tc2_Standard'', version = VVer (Version [3, 3, 3, 0]),
                         company = ''Beckhoff Automation GmbH''\<rparr>)
     = Inr \<lparr>title = ''Tc2_Standard'', version = VVer (Version [3, 3, 3, 0]),
            company = ''Beckhoff Automation GmbH''\<rparr>"
  by (rule from_string_rendered) (simp_all add: valid_ref_def valid_version_def newline_def)

end
